theory Spec2Isabelle
  imports Main "HOL-Library.Word" "HOL-Library.AList"
begin

unbundle bit_operations_syntax

section \<open>Go library functions used by the sources\<close>

text \<open>
  Go strings and byte slices are byte sequences. A Go \<^verbatim>\<open>string\<close> is modelled as
  \<^typ>\<open>string\<close> (a list of 8-bit characters) and a \<^verbatim>\<open>[]byte\<close> buffer as a list
  of 8-bit words. Go's \<^verbatim>\<open>int\<close> and \<^verbatim>\<open>int64\<close> are both taken to be 64 bits
  wide (the amd64 target); values are kept as \<^typ>\<open>int\<close> and the two's complement
  wrap-around is written out where the source does arithmetic that can overflow.
\<close>

type_synonym byte = "8 word"

subsection \<open>strings.Split, strings.HasPrefix, strings.HasSuffix, strings.Replace\<close>

text \<open>
  \<^verbatim>\<open>strings.Split(s, sep)\<close> for a separator of one byte, the only kind the sources
  use (\<^verbatim>\<open>"2"\<close> and \<^verbatim>\<open>"-"\<close>): the pieces of \<open>s\<close> between the occurrences of
  the separator; \<open>n\<close> occurrences give \<open>n + 1\<close> pieces, the empty string gives one
  empty piece.
\<close>

fun strings_Split :: "string \<Rightarrow> char \<Rightarrow> string list" where
  "strings_Split [] sep = [[]]"
| "strings_Split (x # xs) sep =
     (if x = sep then [] # strings_Split xs sep
      else (case strings_Split xs sep of
              [] \<Rightarrow> [[x]]
            | p # ps \<Rightarrow> (x # p) # ps))"

fun strings_HasPrefix :: "string \<Rightarrow> string \<Rightarrow> bool" where
  "strings_HasPrefix s [] = True"
| "strings_HasPrefix [] (p # ps) = False"
| "strings_HasPrefix (c # cs) (p # ps) = (c = p \<and> strings_HasPrefix cs ps)"

definition strings_HasSuffix :: "string \<Rightarrow> string \<Rightarrow> bool" where
  "strings_HasSuffix s suffix = strings_HasPrefix (rev s) (rev suffix)"

text \<open>
  \<^verbatim>\<open>strings.Replace(s, old, new, 1)\<close>: the first (leftmost) occurrence of \<open>old\<close> in
  \<open>s\<close> is replaced by \<open>new\<close>; with no occurrence \<open>s\<close> is returned. An empty \<open>old\<close>
  matches at the beginning of the string.
\<close>

fun strings_Replace1 :: "string \<Rightarrow> string \<Rightarrow> string \<Rightarrow> string" where
  "strings_Replace1 [] old new = (if old = [] then new else [])"
| "strings_Replace1 (c # cs) old new =
     (if strings_HasPrefix (c # cs) old then new @ drop (length old) (c # cs)
      else c # strings_Replace1 cs old new)"

subsection \<open>strconv.Atoi and strconv.Itoa\<close>

definition is_digit :: "char \<Rightarrow> bool" where
  "is_digit c = (48 \<le> (of_char c :: nat) \<and> (of_char c :: nat) \<le> 57)"

definition digit_val :: "char \<Rightarrow> nat" where
  "digit_val c = (of_char c :: nat) - 48"

text \<open>The value of a digit string, most significant digit first (an accumulating loop).\<close>

fun digits_val :: "nat \<Rightarrow> string \<Rightarrow> nat" where
  "digits_val acc [] = acc"
| "digits_val acc (c # cs) = digits_val (acc * 10 + digit_val c) cs"

definition max_int64 :: int where
  "max_int64 = 2 ^ 63 - 1"

definition min_int64 :: int where
  "min_int64 = - (2 ^ 63)"

text \<open>Two's complement wrap-around of a 64-bit signed result.\<close>

definition wrap64 :: "int \<Rightarrow> int" where
  "wrap64 x = (x + 2 ^ 63) mod 2 ^ 64 - 2 ^ 63"

text \<open>
  \<^verbatim>\<open>strconv.Atoi\<close>: an optional sign \<^verbatim>\<open>+\<close> or \<^verbatim>\<open>-\<close>, then one or more decimal
  digits and nothing else; the value must fit the 64-bit \<^verbatim>\<open>int\<close>. Any other input
  is an error (\<open>None\<close>): the callers only test \<^verbatim>\<open>err == nil\<close>.
\<close>

definition strconv_Atoi :: "string \<Rightarrow> int option" where
  "strconv_Atoi s =
     (let neg = (s \<noteq> [] \<and> hd s = CHR ''-'');
          ds = (if s \<noteq> [] \<and> (hd s = CHR ''-'' \<or> hd s = CHR ''+'') then tl s else s)
      in if ds = [] \<or> \<not> list_all is_digit ds then None
         else (let v = (if neg then - int (digits_val 0 ds) else int (digits_val 0 ds))
               in if min_int64 \<le> v \<and> v \<le> max_int64 then Some v else None))"

definition digit_char :: "nat \<Rightarrow> char" where
  "digit_char d = char_of (48 + d)"

fun nat_digits :: "nat \<Rightarrow> string" where
  "nat_digits n = (if n < 10 then [digit_char n] else nat_digits (n div 10) @ [digit_char (n mod 10)])"

declare nat_digits.simps [simp del]

definition strconv_Itoa :: "int \<Rightarrow> string" where
  "strconv_Itoa i = (if i < 0 then CHR ''-'' # nat_digits (nat (- i)) else nat_digits (nat i))"

subsection \<open>Lowercase hexadecimal: fmt.Sprintf("%x", bytes) and hex.EncodeToString\<close>

definition hex_digit :: "nat \<Rightarrow> char" where
  "hex_digit d = (if d < 10 then char_of (48 + d) else char_of (87 + d))"

definition hex_encode :: "string \<Rightarrow> string" where
  "hex_encode bs = concat (map (\<lambda>b. [hex_digit ((of_char b :: nat) div 16), hex_digit ((of_char b :: nat) mod 16)]) bs)"

subsection \<open>crypto/sha1\<close>

text \<open>
  \<^verbatim>\<open>sha1.Sum\<close> as FIPS 180-4 defines it, on 32-bit words: the message is padded
  with \<^verbatim>\<open>0x80\<close>, zeros and its bit length (64 bits, big endian) to a multiple of
  64 bytes, and every block of 64 bytes updates the five chaining words in 80 rounds.
\<close>

type_synonym word32 = "32 word"

definition be32 :: "string \<Rightarrow> word32" where
  "be32 bs = foldl (\<lambda>acc b. push_bit 8 acc OR word_of_nat (of_char b)) 0 (take 4 bs)"

definition be_bytes :: "nat \<Rightarrow> nat \<Rightarrow> string" where
  "be_bytes k n = map (\<lambda>i. char_of (n div 256 ^ (k - 1 - i))) [0..<k]"

definition sha1_pad :: "string \<Rightarrow> string" where
  "sha1_pad msg =
     (let l = length msg;
          z = (119 - l mod 64) mod 64
      in msg @ [char_of (128 :: nat)] @ replicate z (char_of (0 :: nat)) @ be_bytes 8 (8 * l))"

fun chunks :: "nat \<Rightarrow> nat \<Rightarrow> 'a list \<Rightarrow> 'a list list" where
  "chunks 0 k xs = []"
| "chunks (Suc n) k xs = take k xs # chunks n k (drop k xs)"

text \<open>The message schedule: 16 words of the block, extended to 80.\<close>

fun sha1_schedule :: "nat \<Rightarrow> word32 list \<Rightarrow> word32 list" where
  "sha1_schedule 0 w = w"
| "sha1_schedule (Suc n) w =
     (let t = length w
      in sha1_schedule n
           (w @ [word_rotl 1 (w ! (t - 3) XOR w ! (t - 8) XOR w ! (t - 14) XOR w ! (t - 16))]))"

definition sha1_f :: "nat \<Rightarrow> word32 \<Rightarrow> word32 \<Rightarrow> word32 \<Rightarrow> word32" where
  "sha1_f t b c d =
     (if t < 20 then (b AND c) OR (NOT b AND d)
      else if t < 40 then b XOR c XOR d
      else if t < 60 then (b AND c) OR (b AND d) OR (c AND d)
      else b XOR c XOR d)"

definition sha1_k :: "nat \<Rightarrow> word32" where
  "sha1_k t =
     (if t < 20 then 0x5A827999
      else if t < 40 then 0x6ED9EBA1
      else if t < 60 then 0x8F1BBCDC
      else 0xCA62C1D6)"

type_synonym sha1_state = "word32 \<times> word32 \<times> word32 \<times> word32 \<times> word32"

fun sha1_round :: "sha1_state \<Rightarrow> nat \<times> word32 \<Rightarrow> sha1_state" where
  "sha1_round (a, b, c, d, e) (t, wt) =
     (word_rotl 5 a + sha1_f t b c d + e + sha1_k t + wt, a, word_rotl 30 b, c, d)"

fun sha1_block :: "sha1_state \<Rightarrow> string \<Rightarrow> sha1_state" where
  "sha1_block (h0, h1, h2, h3, h4) blk =
     (let w = sha1_schedule 64 (map be32 (chunks 16 4 blk));
          (a, b, c, d, e) = foldl sha1_round (h0, h1, h2, h3, h4) (zip [0..<80] w)
      in (h0 + a, h1 + b, h2 + c, h3 + d, h4 + e))"

definition sha1_init :: sha1_state where
  "sha1_init = (0x67452301, 0xEFCDAB89, 0x98BADCFE, 0x10325476, 0xC3D2E1F0)"

fun sha1_out :: "sha1_state \<Rightarrow> string" where
  "sha1_out (h0, h1, h2, h3, h4) = concat (map (\<lambda>h. be_bytes 4 (unat h)) [h0, h1, h2, h3, h4])"

definition sha1_Sum :: "string \<Rightarrow> string" where
  "sha1_Sum msg =
     (let p = sha1_pad msg
      in sha1_out (foldl sha1_block sha1_init (chunks (length p div 64) 64 p)))"


section \<open>The control session\<close>

subsection \<open>Data\<close>

record NewInfo =
  InfoHash :: string
  Rev :: string

record IHMessage =
  Info :: NewInfo
  Port :: int
  Sig :: string

text \<open>
  The field \<^verbatim>\<open>id\<close> of \<^verbatim>\<open>peerState\<close> is \<open>peer_id\<close> here, and the fields
  \<^verbatim>\<open>rev\<close> and \<^verbatim>\<open>Port\<close> of \<^verbatim>\<open>ControlSession\<close> are \<open>cs_rev\<close> and \<open>cs_Port\<close>.
  What a peer has been sent: the extension handshake, or an \<^verbatim>\<open>IHMessage\<close> framed
  with the code byte the peer assigned to \<^verbatim>\<open>bs_metadata\<close>.
\<close>

datatype message = ExtensionHandshake | IHFrame byte IHMessage

record peerState =
  address :: string
  peer_id :: string
  theirExtensions :: "string \<rightharpoonup> int"
  sent :: "message list"

text \<open>
  An established connection: the remote address, the peer's handshake header and the
  peer id (the field \<^verbatim>\<open>id\<close> of \<^verbatim>\<open>btConn\<close>, \<open>conn_id\<close> here).
\<close>

record btConn =
  remoteAddr :: string
  header :: "byte list"
  conn_id :: string

record ControlSession =
  cs_Port :: int
  PeerID :: string
  currentIH :: string
  cs_rev :: string
  peers :: "string \<rightharpoonup> peerState"
  bitshareDir :: string

text \<open>
  The file \<^verbatim>\<open>{dir}/current\<close>: absent, present but not openable, or holding what
  the bencode decoder leaves in the \<^verbatim>\<open>IHMessage\<close> it fills. A decoding error is only
  logged, so the message holds the fields that were set before the error, and is the
  zero message when none was. \<open>creatable\<close> tells whether \<^verbatim>\<open>os.Create\<close> of the file
  succeeds.
\<close>

datatype current_file = NotExist | Unreadable | Stored IHMessage

record disk =
  current :: current_file
  creatable :: bool

datatype cs_error = OpenError | SlicePanic

definition NewIHMessage :: "int \<Rightarrow> string \<Rightarrow> string \<Rightarrow> string \<Rightarrow> IHMessage" where
  "NewIHMessage port ih privkey r = \<lparr>Info = \<lparr>InfoHash = ih, Rev = r\<rparr>, Port = port, Sig = []\<rparr>"

definition zero_IHMessage :: IHMessage where
  "zero_IHMessage = \<lparr>Info = \<lparr>InfoHash = [], Rev = []\<rparr>, Port = 0, Sig = []\<rparr>"

subsection \<open>NewControlSession\<close>

text \<open>
  The revision restored at construction (lines 82 to 90 of the source): \<^verbatim>\<open>"0-"\<close>
  unless the persisted revision is non-empty, splits into exactly two pieces at the
  byte \<^verbatim>\<open>'2'\<close>, and the first piece is accepted by \<^verbatim>\<open>strconv.Atoi\<close>.
\<close>

definition restored_rev :: "string \<Rightarrow> string" where
  "restored_rev r =
     (if r \<noteq> [] then
        (let parts = strings_Split r (CHR ''2'')
         in if length parts = 2 then
              (case strconv_Atoi (parts ! 0) of
                 Some _ \<Rightarrow> r
               | None \<Rightarrow> ''0-'')
            else ''0-'')
      else ''0-'')"

text \<open>
  \<open>sid\<close> is the string \<^verbatim>\<open>"-tt" + pid + "_" + random\<close>; the peer id is its first
  20 bytes, and slicing a shorter string panics.
\<close>

definition NewControlSession :: "int \<Rightarrow> string \<Rightarrow> string \<Rightarrow> disk \<Rightarrow> cs_error + ControlSession" where
  "NewControlSession listenPort dir sid d =
     (if current d = Unreadable then Inl OpenError
      else
        (let currentIhMessage = (case current d of Stored m \<Rightarrow> m | _ \<Rightarrow> zero_IHMessage);
             r = restored_rev (Rev (Info currentIhMessage))
         in if length sid < 20 then Inl SlicePanic
            else Inr \<lparr>cs_Port = listenPort, PeerID = take 20 sid,
                      currentIH = InfoHash (Info currentIhMessage), cs_rev = r,
                      peers = Map.empty, bitshareDir = dir\<rparr>))"

subsection \<open>AddPeer\<close>

text \<open>
  \<^verbatim>\<open>MAX_NUM_PEERS\<close> is a constant of the repository declared outside the given
  sources; it is a parameter of the model. \<^verbatim>\<open>len(cs.peers)\<close> is the number of
  keys of the map. Reading the header at index 5 or 7 panics on a shorter header.
  The DHT is told of a peer whose header byte 7 has bit 1 set; this leaves the
  session as it is. A peer whose header byte 5 has bit \<^verbatim>\<open>0x10\<close> set is sent the
  extension handshake.
\<close>

definition byte_at :: "byte list \<Rightarrow> nat \<Rightarrow> byte option" where
  "byte_at bs i = (if i < length bs then Some (bs ! i) else None)"

definition NewPeerState :: "string \<Rightarrow> string \<Rightarrow> peerState" where
  "NewPeerState addr pid = \<lparr>address = addr, peer_id = pid, theirExtensions = Map.empty, sent = []\<rparr>"

definition AddPeer :: "nat \<Rightarrow> ControlSession \<Rightarrow> btConn \<Rightarrow> ControlSession option" where
  "AddPeer MAX_NUM_PEERS cs btconn =
     (if \<exists>p \<in> ran (peers cs). peer_id p = conn_id btconn then Some cs
      else if card (dom (peers cs)) \<ge> MAX_NUM_PEERS then Some cs
      else
        (case (byte_at (header btconn) 7, byte_at (header btconn) 5) of
           (Some h7, Some h5) \<Rightarrow>
             (let ps = NewPeerState (remoteAddr btconn) (conn_id btconn);
                  ps' = (if h5 AND 0x10 = 0x10 then ps\<lparr>sent := sent ps @ [ExtensionHandshake]\<rparr> else ps)
              in Some (cs\<lparr>peers := (peers cs)(remoteAddr btconn \<mapsto> ps')\<rparr>))
         | _ \<Rightarrow> None))"

text \<open>A sequence of admissions; a panic ends the process and the run.\<close>

fun AddPeers :: "nat \<Rightarrow> ControlSession \<Rightarrow> btConn list \<Rightarrow> ControlSession option" where
  "AddPeers M cs [] = Some cs"
| "AddPeers M cs (c # rest) =
     (case AddPeer M cs c of None \<Rightarrow> None | Some cs' \<Rightarrow> AddPeers M cs' rest)"

definition ClosePeer :: "ControlSession \<Rightarrow> peerState \<Rightarrow> ControlSession" where
  "ClosePeer cs peer = cs\<lparr>peers := (peers cs)(address peer := None)\<rparr>"

subsection \<open>SetCurrent\<close>

text \<open>
  \<^verbatim>\<open>broadcast\<close>: every peer whose extension table has \<^verbatim>\<open>bs_metadata\<close> is sent the
  \<^verbatim>\<open>IHMessage\<close> of the session's port, the info-hash and the session's revision,
  framed with the low byte of the peer's code.
\<close>

definition ihMessage :: "ControlSession \<Rightarrow> string \<Rightarrow> peerState \<Rightarrow> message" where
  "ihMessage cs ih ps =
     IHFrame (word_of_int (case theirExtensions ps ''bs_metadata'' of Some c \<Rightarrow> c | None \<Rightarrow> 0))
             (NewIHMessage (cs_Port cs) ih [] (cs_rev cs))"

definition broadcast :: "ControlSession \<Rightarrow> string \<Rightarrow> ControlSession" where
  "broadcast cs ih =
     cs\<lparr>peers := (\<lambda>a. case peers cs a of
                          None \<Rightarrow> None
                        | Some ps \<Rightarrow>
                            (case theirExtensions ps ''bs_metadata'' of
                               None \<Rightarrow> Some ps
                             | Some _ \<Rightarrow> Some (ps\<lparr>sent := sent ps @ [ihMessage cs ih ps]\<rparr>)))\<rparr>"

text \<open>
  The new revision (lines 512 to 524): the old one is split at \<^verbatim>\<open>'-'\<close>; anything but
  two pieces is replaced by \<^verbatim>\<open>["0", ""]\<close>; a first piece that \<^verbatim>\<open>Atoi\<close> rejects
  counts as 0; the counter is incremented in 64-bit arithmetic.
\<close>

definition next_rev :: "string \<Rightarrow> string \<Rightarrow> string" where
  "next_rev r ih =
     (let parts0 = strings_Split r (CHR ''-'');
          parts = (if length parts0 \<noteq> 2 then [''0'', []] else parts0);
          counter = (case strconv_Atoi (parts ! 0) of Some n \<Rightarrow> n | None \<Rightarrow> 0);
          newCounter = strconv_Itoa (wrap64 (counter + 1))
      in newCounter @ ''-'' @ hex_encode (sha1_Sum (ih @ parts ! 1)))"

text \<open>
  \<^verbatim>\<open>SetCurrent\<close>: \<open>None\<close> is \<^verbatim>\<open>log.Fatal\<close> when the marker file cannot be
  created; otherwise the new message is stored in the marker file and broadcast.
\<close>

definition SetCurrent :: "string \<Rightarrow> ControlSession \<times> disk \<Rightarrow> (ControlSession \<times> disk) option" where
  "SetCurrent ih st =
     (case st of (cs, d) \<Rightarrow>
        (let cs1 = cs\<lparr>currentIH := ih\<rparr>;
             cs2 = cs1\<lparr>cs_rev := next_rev (cs_rev cs1) ih\<rparr>
         in if \<not> creatable d then None
            else Some (broadcast cs2 ih,
                       d\<lparr>current := Stored (NewIHMessage (cs_Port cs2) (currentIH cs2) [] (cs_rev cs2))\<rparr>)))"

text \<open>A run of \<^verbatim>\<open>SetCurrent\<close> calls, each of which must succeed.\<close>

fun SetCurrents :: "string list \<Rightarrow> ControlSession \<times> disk \<Rightarrow> (ControlSession \<times> disk) option" where
  "SetCurrents [] st = Some st"
| "SetCurrents (ih # ihs) st =
     (case SetCurrent ih st of None \<Rightarrow> None | Some st' \<Rightarrow> SetCurrents ihs st')"

text \<open>The counter prefix of a revision: what precedes the first \<^verbatim>\<open>'-'\<close>.\<close>

definition counter_prefix :: "string \<Rightarrow> string" where
  "counter_prefix r = takeWhile (\<lambda>c. c \<noteq> CHR ''-'') r"

text \<open>
  The invariant of the peer table: finitely many keys, at most \<^verbatim>\<open>MAX_NUM_PEERS\<close> of
  them, and no two entries with the same peer id.
\<close>

definition peers_inv :: "nat \<Rightarrow> ControlSession \<Rightarrow> bool" where
  "peers_inv M cs \<longleftrightarrow>
     finite (dom (peers cs)) \<and> card (dom (peers cs)) \<le> M \<and>
     (\<forall>a b p q. peers cs a = Some p \<longrightarrow> peers cs b = Some q \<longrightarrow> peer_id p = peer_id q \<longrightarrow> a = b)"

subsection \<open>Concrete states used by the examples\<close>

definition ex_peer :: peerState where
  "ex_peer = NewPeerState ''10.0.0.1:6881'' ''-tt1000_aaaaaaaaaaaa''"

definition ex_session :: ControlSession where
  "ex_session = \<lparr>cs_Port = 6881, PeerID = ''-tt4242_123456789012'', currentIH = [],
                  cs_rev = ''0-'', peers = [''10.0.0.1:6881'' \<mapsto> ex_peer], bitshareDir = ''/tmp/bs''\<rparr>"

definition ex_conn :: btConn where
  "ex_conn = \<lparr>remoteAddr = ''10.0.0.1:6881'', header = replicate 48 0, conn_id = ''-tt2000_bbbbbbbbbbbb''\<rparr>"

definition ex_disk :: disk where
  "ex_disk = \<lparr>current = NotExist, creatable = True\<rparr>"

definition ex_ih :: string where
  "ex_ih = ''abcdefghijklmnopqrst''"

section \<open>Paths and the file system\<close>

subsection \<open>The path package\<close>

text \<open>
  \<^verbatim>\<open>path.Clean\<close>: the shortest equivalent path by purely lexical processing.
  The elements between slashes are processed from left to right on a stack: empty
  elements and \<^verbatim>\<open>.\<close> are dropped, \<^verbatim>\<open>..\<close> removes the element before it, is
  dropped at the root of a rooted path, and is kept at the front of a relative one.
  The empty result is \<^verbatim>\<open>"."\<close>.
\<close>

fun clean_elems :: "bool \<Rightarrow> string list \<Rightarrow> string list \<Rightarrow> string list" where
  "clean_elems rooted stack [] = rev stack"
| "clean_elems rooted stack (e # es) =
     (if e = [] \<or> e = ''.'' then clean_elems rooted stack es
      else if e = ''..'' then
        (case stack of
           [] \<Rightarrow> (if rooted then clean_elems rooted [] es else clean_elems rooted [''..''] es)
         | t # ts \<Rightarrow> (if t = ''..'' then clean_elems rooted (e # stack) es
                      else clean_elems rooted ts es))
      else clean_elems rooted (e # stack) es)"

fun join_slash :: "string list \<Rightarrow> string" where
  "join_slash [] = []"
| "join_slash [e] = e"
| "join_slash (e # es) = e @ ''/'' @ join_slash es"

definition path_Clean :: "string \<Rightarrow> string" where
  "path_Clean p =
     (let rooted = strings_HasPrefix p ''/'';
          out = (if rooted then ''/'' else []) @ join_slash (clean_elems rooted [] (strings_Split p (CHR ''/'')))
      in if out = [] then ''.'' else out)"

text \<open>
  \<^verbatim>\<open>path.Join\<close>: the elements from the first non-empty one on, joined by slashes
  and cleaned; the empty string when every element is empty.
\<close>

definition path_Join :: "string list \<Rightarrow> string" where
  "path_Join elem =
     (if concat elem = [] then []
      else path_Clean (join_slash (dropWhile (\<lambda>e. e = []) elem)))"

text \<open>\<^verbatim>\<open>path.Ext\<close>: the suffix from the last dot of the last element, if any.\<close>

fun ext_scan :: "string \<Rightarrow> string \<Rightarrow> string" where
  "ext_scan [] acc = []"
| "ext_scan (c # cs) acc =
     (if c = CHR ''/'' then []
      else if c = CHR ''.'' then c # acc
      else ext_scan cs (c # acc))"

definition path_Ext :: "string \<Rightarrow> string" where
  "path_Ext p = ext_scan (rev p) []"

text \<open>\<^verbatim>\<open>path.Split\<close>: the path up to and including its last slash, and the rest.\<close>

definition path_Split :: "string \<Rightarrow> string \<times> string" where
  "path_Split p =
     (let file = rev (takeWhile (\<lambda>c. c \<noteq> CHR ''/'') (rev p))
      in (take (length p - length file) p, file))"

subsection \<open>A file system of regular files and directories\<close>

text \<open>
  The file system maps absolute, cleaned paths to nodes; the map is kept as an
  association list so that every operation computes. Every call of the \<^verbatim>\<open>os\<close>
  package resolves its path argument against the working directory first. Permissions,
  links and device errors are outside the model: a call fails only for the structural
  reasons written out below.
\<close>

datatype node = File "byte list" | Dir

record filesys =
  nodes :: "(string \<times> node) list"
  cwd :: string

definition lookup :: "filesys \<Rightarrow> string \<rightharpoonup> node" where
  "lookup fs k = map_of (nodes fs) k"

definition put :: "filesys \<Rightarrow> string \<Rightarrow> node \<Rightarrow> filesys" where
  "put fs k n = fs\<lparr>nodes := AList.update k n (nodes fs)\<rparr>"

definition unlink :: "filesys \<Rightarrow> string \<Rightarrow> filesys" where
  "unlink fs k = fs\<lparr>nodes := AList.delete k (nodes fs)\<rparr>"

datatype fs_error =
    ErrNotExist | ErrNotDir | ErrIsDir | ErrNotEmpty | ErrInvalid | ErrEOF
  | ErrTruncate | ErrNonZero | NilPanic | IndexPanic

definition abs_path :: "filesys \<Rightarrow> string \<Rightarrow> string" where
  "abs_path fs p = path_Clean (if strings_HasPrefix p ''/'' then p else cwd fs @ ''/'' @ p)"

text \<open>The proper ancestors of a cleaned absolute path, the root first.\<close>

definition ancestors :: "string \<Rightarrow> string list" where
  "ancestors k =
     (let es = filter (\<lambda>e. e \<noteq> []) (strings_Split k (CHR ''/''))
      in map (\<lambda>i. ''/'' @ join_slash (take i es)) [0..<length es])"

definition is_file :: "node option \<Rightarrow> bool" where
  "is_file n = (case n of Some (File _) \<Rightarrow> True | _ \<Rightarrow> False)"

text \<open>The size \<^verbatim>\<open>Stat\<close> reports for a directory depends on the system; 4096 is used.\<close>

definition dir_size :: int where
  "dir_size = 4096"

definition node_size :: "node \<Rightarrow> int" where
  "node_size n = (case n of File c \<Rightarrow> int (length c) | Dir \<Rightarrow> dir_size)"

text \<open>
  \<^verbatim>\<open>os.Stat\<close>: the node; for a path that has none, the not-exist error, or
  another error when an ancestor of the path is a regular file.
\<close>

definition os_Stat :: "filesys \<Rightarrow> string \<Rightarrow> fs_error + node" where
  "os_Stat fs p =
     (let k = abs_path fs p
      in case lookup fs k of
           Some n \<Rightarrow> Inr n
         | None \<Rightarrow>
             (if list_ex (\<lambda>a. is_file (lookup fs a)) (ancestors k) then Inl ErrNotDir
              else Inl ErrNotExist))"

definition has_children :: "filesys \<Rightarrow> string \<Rightarrow> bool" where
  "has_children fs k = list_ex (\<lambda>q. q \<noteq> k \<and> k \<in> set (ancestors q)) (map fst (nodes fs))"

definition os_Remove :: "filesys \<Rightarrow> string \<Rightarrow> fs_error + filesys" where
  "os_Remove fs p =
     (let k = abs_path fs p
      in case lookup fs k of
           None \<Rightarrow> Inl ErrNotExist
         | Some (File _) \<Rightarrow> Inr (unlink fs k)
         | Some Dir \<Rightarrow>
             (if has_children fs k then Inl ErrNotEmpty
              else Inr (unlink fs k)))"

text \<open>
  \<^verbatim>\<open>os.Create\<close>: the file is created empty, or truncated to empty when it exists;
  the parent must be a directory and the path must not be one.
\<close>

definition parent_dir :: "string \<Rightarrow> string" where
  "parent_dir k = path_Clean (fst (path_Split k))"

definition os_Create :: "filesys \<Rightarrow> string \<Rightarrow> fs_error + filesys" where
  "os_Create fs p =
     (let k = abs_path fs p
      in if lookup fs k = Some Dir then Inl ErrIsDir
         else if lookup fs (parent_dir k) \<noteq> Some Dir then Inl ErrNotExist
         else Inr (put fs k (File [])))"

text \<open>\<^verbatim>\<open>os.Truncate\<close>: cut, or extend with zero bytes, a regular file to the size.\<close>

definition os_Truncate :: "filesys \<Rightarrow> string \<Rightarrow> int \<Rightarrow> fs_error + filesys" where
  "os_Truncate fs p sz =
     (let k = abs_path fs p
      in case lookup fs k of
           Some (File c) \<Rightarrow>
             (if sz < 0 then Inl ErrInvalid
              else Inr (put fs k (File (take (nat sz) c @ replicate (nat sz - length c) 0))))
         | Some Dir \<Rightarrow> Inl ErrIsDir
         | None \<Rightarrow> Inl ErrNotExist)"

text \<open>
  \<^verbatim>\<open>os.MkdirAll\<close>: the directory and its missing ancestors are created; an error
  when one of them is a regular file.
\<close>

definition os_MkdirAll :: "filesys \<Rightarrow> string \<Rightarrow> fs_error + filesys" where
  "os_MkdirAll fs p =
     (let k = abs_path fs p;
          ds = ancestors k @ [k]
      in if list_ex (\<lambda>a. is_file (lookup fs a)) ds then Inl ErrNotDir
         else Inr (foldl (\<lambda>fs' a. put fs' a Dir) fs ds))"

text \<open>
  Positional reads and writes of an open regular file. \<^verbatim>\<open>ReadAt\<close> returns the bytes
  it could read, with \<^verbatim>\<open>io.EOF\<close> when they are fewer than asked for; \<^verbatim>\<open>WriteAt\<close>
  extends the file with zero bytes up to the offset if need be. A negative offset is
  an error.
\<close>

definition file_ReadAt :: "byte list \<Rightarrow> nat \<Rightarrow> int \<Rightarrow> byte list \<times> fs_error option" where
  "file_ReadAt c len off =
     (if off < 0 then ([], Some ErrInvalid)
      else (let d = take len (drop (nat off) c)
            in (d, if length d < len then Some ErrEOF else None)))"

definition file_WriteAt :: "byte list \<Rightarrow> byte list \<Rightarrow> int \<Rightarrow> fs_error + byte list" where
  "file_WriteAt c p off =
     (if off < 0 then Inl ErrInvalid
      else Inr (take (nat off) c @ replicate (nat off - length c) 0 @ p
                @ drop (nat off + length p) c))"


section \<open>The file store\<close>

subsection \<open>Data\<close>

text \<open>
  The fields \<^verbatim>\<open>length\<close> and \<^verbatim>\<open>name\<close> of \<^verbatim>\<open>fileEntry\<close>, and the fields of
  \<^verbatim>\<open>FileDict\<close> and \<^verbatim>\<open>InfoDict\<close>, carry a prefix here.
\<close>

record fileEntry =
  fe_length :: int
  fe_name :: string

record fileStore =
  offsets :: "int list"
  files :: "fileEntry list"

record FileDict =
  fd_Length :: int
  fd_Path :: "string list"
  fd_Md5sum :: string

record InfoDict =
  PieceLength :: int
  Pieces :: string
  Private :: int
  info_Name :: string
  info_Length :: int
  info_Md5sum :: string
  info_Files :: "FileDict list"

subsection \<open>File entries\<close>

text \<open>
  The staging branch of \<^verbatim>\<open>fileEntry.open\<close> (the block under \<^verbatim>\<open>needToRetrieve\<close>).
\<close>

definition staging_name :: "string \<Rightarrow> string" where
  "staging_name name =
     (let ext = path_Ext name;
          rawname0 = strings_Replace1 name ext [];
          rawname = (if length rawname0 > 60 then take 60 rawname0 @ ''[...]'' else rawname0)
      in rawname @ ext @ ''.part'')"

definition fe_stage :: "filesys \<Rightarrow> string \<Rightarrow> int \<Rightarrow> filesys \<times> (fs_error + fileEntry)" where
  "fe_stage fs name len =
     (let partname = staging_name name
      in case os_Create fs partname of
           Inl e \<Rightarrow> (fs, Inl e)
         | Inr fs2 \<Rightarrow>
             (case os_Truncate fs2 partname len of
                Inr fs3 \<Rightarrow> (fs3, Inr \<lparr>fe_length = len, fe_name = partname\<rparr>)
              | Inl _ \<Rightarrow> (fs2, Inr \<lparr>fe_length = len, fe_name = partname\<rparr>)))"

text \<open>
  \<^verbatim>\<open>fileEntry.open\<close>. A staging file \<^verbatim>\<open>name.part\<close> that \<^verbatim>\<open>Stat\<close> finds is
  removed first (a failure is only logged). The file is then staged when \<^verbatim>\<open>name\<close>
  does not exist or has another size than declared; a \<^verbatim>\<open>Stat\<close> error other than
  not-exist leaves the file info nil, and reading its size panics. The staging name
  is built from the name with the first occurrence of its extension removed and cut
  after 60 bytes. An error of \<^verbatim>\<open>Truncate\<close> is assigned to a variable local to the
  block and is not returned.
\<close>

definition fe_open :: "filesys \<Rightarrow> string \<Rightarrow> int \<Rightarrow> filesys \<times> (fs_error + fileEntry)" where
  "fe_open fs name len =
     (let partname = name @ ''.part'';
          fs1 = (case os_Stat fs partname of
                   Inr _ \<Rightarrow> (case os_Remove fs partname of Inr fs' \<Rightarrow> fs' | Inl _ \<Rightarrow> fs)
                 | Inl _ \<Rightarrow> fs)
      in case os_Stat fs1 name of
           Inl ErrNotExist \<Rightarrow> fe_stage fs1 name len
         | Inl _ \<Rightarrow> (fs1, Inl NilPanic)
         | Inr st \<Rightarrow>
             (if node_size st \<noteq> len then fe_stage fs1 name len
              else (fs1, Inr \<lparr>fe_length = len, fe_name = name\<rparr>)))"


definition isPart :: "fileEntry \<Rightarrow> bool" where
  "isPart fe = strings_HasSuffix (fe_name fe) ''.part''"

text \<open>
  \<^verbatim>\<open>copyfile\<close>: the source is opened, the target created (emptied), and the bytes
  of the source, as they are after that, are copied. A directory opens but cannot be
  read.
\<close>

definition copyfile :: "filesys \<Rightarrow> string \<Rightarrow> string \<Rightarrow> filesys \<times> fs_error option" where
  "copyfile fs fromname toname =
     (case os_Stat fs fromname of
        Inl e \<Rightarrow> (fs, Some e)
      | Inr _ \<Rightarrow>
          (case os_Create fs toname of
             Inl e \<Rightarrow> (fs, Some e)
           | Inr fs1 \<Rightarrow>
               (case lookup fs1 (abs_path fs1 fromname) of
                  Some (File c) \<Rightarrow> (put fs1 (abs_path fs1 toname) (File c), None)
                | _ \<Rightarrow> (fs1, Some ErrIsDir))))"

text \<open>\<^verbatim>\<open>SetPart\<close>: the errors of the copy and of the truncation are only logged.\<close>

definition SetPart :: "filesys \<Rightarrow> fileEntry \<Rightarrow> filesys \<times> fileEntry" where
  "SetPart fs fe =
     (if isPart fe then (fs, fe)
      else
        (let fs1 = fst (copyfile fs (fe_name fe) (fe_name fe @ ''.part''));
             fe' = fe\<lparr>fe_name := fe_name fe @ ''.part''\<rparr>;
             fs2 = (case os_Truncate fs1 (fe_name fe') (fe_length fe') of
                      Inr fs' \<Rightarrow> fs' | Inl _ \<Rightarrow> fs1)
         in (fs2, fe')))"

definition fe_ReadAt :: "filesys \<Rightarrow> fileEntry \<Rightarrow> nat \<Rightarrow> int \<Rightarrow> byte list \<times> fs_error option" where
  "fe_ReadAt fs fe len off =
     (case lookup fs (abs_path fs (fe_name fe)) of
        Some (File c) \<Rightarrow> file_ReadAt c len off
      | Some Dir \<Rightarrow> ([], Some ErrIsDir)
      | None \<Rightarrow> ([], Some ErrNotExist))"

definition fe_WriteAt :: "filesys \<Rightarrow> fileEntry \<Rightarrow> byte list \<Rightarrow> int \<Rightarrow> filesys \<times> int \<times> fs_error option" where
  "fe_WriteAt fs fe p off =
     (case lookup fs (abs_path fs (fe_name fe)) of
        Some (File c) \<Rightarrow>
          (case file_WriteAt c p off of
             Inl e \<Rightarrow> (fs, 0, Some e)
           | Inr c' \<Rightarrow> (put fs (abs_path fs (fe_name fe)) (File c'), int (length p), None))
      | Some Dir \<Rightarrow> (fs, 0, Some ErrIsDir)
      | None \<Rightarrow> (fs, 0, Some ErrNotExist))"

text \<open>
  \<^verbatim>\<open>fileEntry.Cleanup\<close>: a staging entry is copied to the name with the first
  \<^verbatim>\<open>".part"\<close> removed and the staging file is removed; the error returned is that of
  the removal.
\<close>

definition fe_Cleanup :: "filesys \<Rightarrow> fileEntry \<Rightarrow> filesys \<times> fileEntry \<times> fs_error option" where
  "fe_Cleanup fs fe =
     (if isPart fe then
        (let realname = strings_Replace1 (fe_name fe) ''.part'' [];
             fs1 = fst (copyfile fs (fe_name fe) realname)
         in case os_Remove fs1 (fe_name fe) of
              Inr fs2 \<Rightarrow> (fs2, fe\<lparr>fe_name := realname\<rparr>, None)
            | Inl e \<Rightarrow> (fs1, fe\<lparr>fe_name := realname\<rparr>, Some e))
      else (fs, fe, None))"

subsection \<open>Construction\<close>

definition ensureDirectory :: "filesys \<Rightarrow> string \<Rightarrow> fs_error + filesys" where
  "ensureDirectory fs fullPath =
     (let fp = path_Clean fullPath;
          fp' = (if \<not> strings_HasPrefix fp ''/'' then cwd fs @ ''/'' @ fp else fp);
          base = fst (path_Split fp')
      in if base = [] then Inl NilPanic else os_MkdirAll fs base)"

text \<open>
  The loop of \<^verbatim>\<open>NewFileStore\<close> over the files of the info dictionary; the entries
  and offsets built so far and the running total are threaded through. An error ends
  the construction; what was created stays in the file system.
\<close>

fun NewFileStore_loop ::
  "filesys \<Rightarrow> string \<Rightarrow> FileDict list \<Rightarrow> fileStore \<Rightarrow> int \<Rightarrow> filesys \<times> (fs_error + fileStore \<times> int)" where
  "NewFileStore_loop fs storePath [] st totalSize = (fs, Inr (st, totalSize))"
| "NewFileStore_loop fs storePath (src # rest) st totalSize =
     (let cleanSrcPath = tl (path_Clean (''/'' @ path_Join (fd_Path src)));
          fullPath = path_Join [storePath, cleanSrcPath]
      in case ensureDirectory fs fullPath of
           Inl e \<Rightarrow> (fs, Inl e)
         | Inr fs1 \<Rightarrow>
             (case fe_open fs1 fullPath (fd_Length src) of
                (fs2, Inl e) \<Rightarrow> (fs2, Inl e)
              | (fs2, Inr fe) \<Rightarrow>
                  NewFileStore_loop fs2 storePath rest
                    \<lparr>offsets = offsets st @ [totalSize], files = files st @ [fe]\<rparr>
                    (wrap64 (totalSize + fd_Length src))))"

definition NewFileStore :: "filesys \<Rightarrow> InfoDict \<Rightarrow> string \<Rightarrow> filesys \<times> (fs_error + fileStore \<times> int)" where
  "NewFileStore fs info storePath =
     (let fds = (if info_Files info = []
                 then [\<lparr>fd_Length = info_Length info, fd_Path = [info_Name info],
                        fd_Md5sum = info_Md5sum info\<rparr>]
                 else info_Files info)
      in NewFileStore_loop fs storePath fds \<lparr>offsets = [], files = []\<rparr> 0)"

subsection \<open>Finding the entry of an offset\<close>

text \<open>\<^verbatim>\<open>sort.Search\<close>: binary search for the least index in \<open>[0, n)\<close> where \<open>f\<close> holds.\<close>

function search_loop :: "(nat \<Rightarrow> bool) \<Rightarrow> nat \<Rightarrow> nat \<Rightarrow> nat" where
  "search_loop f i j =
     (if i < j then
        (let h = (i + j) div 2
         in if \<not> f h then search_loop f (h + 1) j else search_loop f i h)
      else i)"
  by pat_completeness auto
termination
  by (relation "measure (\<lambda>(f, i, j). j - i)") auto

declare search_loop.simps [simp del]

definition sort_Search :: "nat \<Rightarrow> (nat \<Rightarrow> bool) \<Rightarrow> nat" where
  "sort_Search n f = search_loop f 0 n"

definition find_fs :: "fileStore \<Rightarrow> int \<Rightarrow> nat" where
  "find_fs f offset =
     sort_Search (length (offsets f))
       (\<lambda>i. if int i \<ge> int (length (offsets f)) - 1 then True
            else offsets f ! (i + 1) \<ge> offset)"

subsection \<open>Reading and writing\<close>

text \<open>
  The loop of \<^verbatim>\<open>ReadAt\<close>. The result is the buffer as the loop leaves it, the count
  and the error: the bytes read are in front, and what is left of the buffer when the
  entries are exhausted is set to zero. On an error the rest of the buffer keeps its
  old bytes.
\<close>

function ReadAt_loop ::
  "fileStore \<Rightarrow> filesys \<Rightarrow> nat \<Rightarrow> byte list \<Rightarrow> int \<Rightarrow> int \<Rightarrow> byte list \<times> int \<times> fs_error option" where
  "ReadAt_loop f fs index p off n =
     (if p \<noteq> [] \<and> index < length (offsets f) then
        (if index \<ge> length (files f) then (p, n, Some IndexPanic)
         else
           (let entry = files f ! index;
                itemOffset = off - offsets f ! index
            in if itemOffset < fe_length entry then
                 (let space = fe_length entry - itemOffset;
                      chunk = (if space < int (length p) then space else int (length p));
                      r = fe_ReadAt fs entry (nat chunk) itemOffset;
                      nThisTime = int (length (fst r))
                  in if snd r \<noteq> None then (fst r @ drop (length (fst r)) p, n + nThisTime, snd r)
                     else
                       (let rest = ReadAt_loop f fs (index + 1) (drop (length (fst r)) p)
                                     (off + nThisTime) (n + nThisTime)
                        in (fst r @ fst rest, snd rest)))
               else ReadAt_loop f fs (index + 1) p off n))
      else (replicate (length p) 0, n, None))"
  by pat_completeness auto
termination
  by (relation "measure (\<lambda>(f, fs, index, p, off, n). length (offsets f) - index)") auto

declare ReadAt_loop.simps [simp del]

definition ReadAt :: "fileStore \<Rightarrow> filesys \<Rightarrow> byte list \<Rightarrow> int \<Rightarrow> byte list \<times> int \<times> fs_error option" where
  "ReadAt f fs p off = ReadAt_loop f fs (find_fs f off) p off 0"

text \<open>
  The loop of \<^verbatim>\<open>WriteAt\<close>: the file system, the count, the error and what is left
  of the buffer.
\<close>

function WriteAt_loop ::
  "fileStore \<Rightarrow> filesys \<Rightarrow> nat \<Rightarrow> byte list \<Rightarrow> int \<Rightarrow> int \<Rightarrow> filesys \<times> int \<times> fs_error option \<times> byte list" where
  "WriteAt_loop f fs index p off n =
     (if p \<noteq> [] \<and> index < length (offsets f) then
        (if index \<ge> length (files f) then (fs, n, Some IndexPanic, p)
         else
           (let entry = files f ! index;
                itemOffset = off - offsets f ! index
            in if itemOffset < fe_length entry then
                 (let space = fe_length entry - itemOffset;
                      chunk = (if space < int (length p) then space else int (length p));
                      r = fe_WriteAt fs entry (take (nat chunk) p) itemOffset;
                      nThisTime = fst (snd r)
                  in if snd (snd r) \<noteq> None then (fst r, n + nThisTime, snd (snd r), p)
                     else WriteAt_loop f (fst r) (index + 1) (drop (nat nThisTime) p)
                            (off + nThisTime) (n + nThisTime))
               else WriteAt_loop f fs (index + 1) p off n))
      else (fs, n, None, p))"
  by pat_completeness auto
termination
  by (relation "measure (\<lambda>(f, fs, index, p, off, n). length (offsets f) - index)") auto

declare WriteAt_loop.simps [simp del]

text \<open>
  \<^verbatim>\<open>WriteAt\<close>: what the loop leaves of the buffer lies beyond the store and must
  be zero; the count includes it, or stops at the first byte that is not zero.
\<close>

definition WriteAt :: "fileStore \<Rightarrow> filesys \<Rightarrow> byte list \<Rightarrow> int \<Rightarrow> filesys \<times> int \<times> fs_error option" where
  "WriteAt f fs p off =
     (case WriteAt_loop f fs (find_fs f off) p off 0 of
        (fs', n, err, rest) \<Rightarrow>
          (if err \<noteq> None then (fs', n, err)
           else (let z = length (takeWhile (\<lambda>b. b = 0) rest)
                 in if z < length rest then (fs', n + int z, Some ErrNonZero)
                    else (fs', n + int (length rest), None))))"

subsection \<open>SetBad and Cleanup\<close>

function SetBad_loop :: "fileStore \<Rightarrow> filesys \<Rightarrow> nat \<Rightarrow> filesys \<times> (fs_error + fileStore)" where
  "SetBad_loop f fs index =
     (if index < length (offsets f) then
        (if index \<ge> length (files f) then (fs, Inl IndexPanic)
         else
           (let r = SetPart fs (files f ! index)
            in SetBad_loop (f\<lparr>files := (files f)[index := snd r]\<rparr>) (fst r) (index + 1)))
      else (fs, Inr f))"
  by pat_completeness auto
termination
  by (relation "measure (\<lambda>(f, fs, index). length (offsets f) - index)") auto

declare SetBad_loop.simps [simp del]

definition SetBad :: "fileStore \<Rightarrow> filesys \<Rightarrow> int \<Rightarrow> filesys \<times> (fs_error + fileStore)" where
  "SetBad f fs from = SetBad_loop f fs (find_fs f from)"

text \<open>
  \<^verbatim>\<open>fileStore.Cleanup\<close> ranges over copies of the entries: the files are moved, the
  names kept in the store are not updated, and the error is that of the last entry.
\<close>

fun Cleanup_loop :: "filesys \<Rightarrow> fileEntry list \<Rightarrow> fs_error option \<Rightarrow> filesys \<times> fs_error option" where
  "Cleanup_loop fs [] err = (fs, err)"
| "Cleanup_loop fs (fe # fes) err =
     (case fe_Cleanup fs fe of (fs', _, err') \<Rightarrow> Cleanup_loop fs' fes err')"

definition Cleanup :: "fileStore \<Rightarrow> filesys \<Rightarrow> filesys \<times> fs_error option" where
  "Cleanup f fs = Cleanup_loop fs (files f) None"

subsection \<open>Well-formed stores\<close>

text \<open>
  The invariants of the data model: one offset per entry, no negative length, and
  every offset the sum of the lengths before it. The total size is the sum of all
  lengths. A store is backed when the name of every entry resolves to a regular file,
  and unaliased when the names resolve to pairwise different files.
\<close>

definition totalSize :: "fileStore \<Rightarrow> int" where
  "totalSize f = sum_list (map fe_length (files f))"

definition prefix_size :: "fileStore \<Rightarrow> nat \<Rightarrow> int" where
  "prefix_size f i = sum_list (map fe_length (take i (files f)))"

definition wf_store :: "fileStore \<Rightarrow> bool" where
  "wf_store f \<longleftrightarrow>
     length (offsets f) = length (files f) \<and>
     list_all (\<lambda>fe. 0 \<le> fe_length fe) (files f) \<and>
     offsets f = map (prefix_size f) [0..<length (files f)]"

definition backed :: "fileStore \<Rightarrow> filesys \<Rightarrow> bool" where
  "backed f fs = list_all (\<lambda>fe. is_file (lookup fs (abs_path fs (fe_name fe)))) (files f)"

definition unaliased :: "fileStore \<Rightarrow> filesys \<Rightarrow> bool" where
  "unaliased f fs = distinct (map (\<lambda>fe. abs_path fs (fe_name fe)) (files f))"

text \<open>
  What the write loop achieves from entry \<open>index\<close> on, when the store is well formed
  and backed: the bytes that fall inside the store are written and counted, what lies
  beyond is handed back, only files of the entries from \<open>index\<close> on are touched,
  and the file system is the one that writing the part inside the store alone gives.
\<close>

definition write_post ::
  "fileStore \<Rightarrow> filesys \<Rightarrow> nat \<Rightarrow> byte list \<Rightarrow> int \<Rightarrow> int \<Rightarrow> filesys \<Rightarrow> bool" where
  "write_post f fs index p off n fs' \<longleftrightarrow>
     WriteAt_loop f fs index p off n =
       (fs', n + int (length p) - int (length (drop (nat (totalSize f - off)) p)), None,
        drop (nat (totalSize f - off)) p) \<and>
     backed f fs' \<and> cwd fs' = cwd fs \<and>
     (\<forall>k. k \<notin> (\<lambda>fe. abs_path fs (fe_name fe)) ` set (drop index (files f)) \<longrightarrow>
          lookup fs' k = lookup fs k) \<and>
     fst (WriteAt_loop f fs index (take (nat (totalSize f - off)) p) off n) = fs'"

subsection \<open>Concrete stores used by the examples\<close>

text \<open>
  An empty file system; the info dictionary of the layout scenario (name \<^verbatim>\<open>r\<close>, files
  \<^verbatim>\<open>x\<close> of 3 bytes and \<^verbatim>\<open>d/y\<close> of 5 bytes) with the store and the file system its
  construction under \<^verbatim>\<open>/tmp/t\<close> gives; the same files in final state; and an info
  dictionary that names the same file twice.
\<close>

definition fs0 :: filesys where
  "fs0 = \<lparr>nodes = [(''/'', Dir)], cwd = ''/''\<rparr>"

definition info_r :: InfoDict where
  "info_r = \<lparr>PieceLength = 4, Pieces = [], Private = 0, info_Name = ''r'', info_Length = 0,
     info_Md5sum = [], info_Files = [\<lparr>fd_Length = 3, fd_Path = [''x''], fd_Md5sum = []\<rparr>,
        \<lparr>fd_Length = 5, fd_Path = [''d'', ''y''], fd_Md5sum = []\<rparr>]\<rparr>"

definition st_r :: fileStore where
  "st_r = \<lparr>offsets = [0, 3], files = [\<lparr>fe_length = 3, fe_name = ''/tmp/t/x.part''\<rparr>,
      \<lparr>fe_length = 5, fe_name = ''/tmp/t/d/y.part''\<rparr>]\<rparr>"

definition fs_staged :: filesys where
  "fs_staged = \<lparr>nodes = [(''/'', Dir), (''/tmp'', Dir), (''/tmp/t'', Dir),
      (''/tmp/t/x.part'', File [0, 0, 0]), (''/tmp/t/d'', Dir),
      (''/tmp/t/d/y.part'', File [0, 0, 0, 0, 0])], cwd = ''/''\<rparr>"

definition st_final :: fileStore where
  "st_final = \<lparr>offsets = [0, 3], files = [\<lparr>fe_length = 3, fe_name = ''/tmp/t/x''\<rparr>,
      \<lparr>fe_length = 5, fe_name = ''/tmp/t/d/y''\<rparr>]\<rparr>"

definition fs_final :: filesys where
  "fs_final = \<lparr>nodes = [(''/'', Dir), (''/tmp'', Dir), (''/tmp/t'', Dir), (''/tmp/t/d'', Dir),
      (''/tmp/t/x'', File [65, 66, 67]), (''/tmp/t/d/y'', File [68, 69, 70, 71, 72])], cwd = ''/''\<rparr>"

definition info_dup :: InfoDict where
  "info_dup = \<lparr>PieceLength = 4, Pieces = [], Private = 0, info_Name = ''r'', info_Length = 0,
     info_Md5sum = [], info_Files = [\<lparr>fd_Length = 3, fd_Path = [''x''], fd_Md5sum = []\<rparr>,
        \<lparr>fd_Length = 3, fd_Path = [''x''], fd_Md5sum = []\<rparr>]\<rparr>"

definition st_dup :: fileStore where
  "st_dup = \<lparr>offsets = [0, 3], files = [\<lparr>fe_length = 3, fe_name = ''/tmp/t/x.part''\<rparr>,
      \<lparr>fe_length = 3, fe_name = ''/tmp/t/x.part''\<rparr>]\<rparr>"

definition fs_dup :: filesys where
  "fs_dup = \<lparr>nodes = [(''/'', Dir), (''/tmp'', Dir), (''/tmp/t'', Dir),
      (''/tmp/t/x.part'', File [0, 0, 0])], cwd = ''/''\<rparr>"

definition info_single :: InfoDict where
  "info_single = \<lparr>PieceLength = 4, Pieces = [], Private = 0, info_Name = ''a'', info_Length = 4,
     info_Md5sum = [], info_Files = []\<rparr>"

text \<open>An info dictionary whose only file has the path \<^verbatim>\<open>..\<close>, and a root of 65 bytes.\<close>

definition info_up :: InfoDict where
  "info_up = \<lparr>PieceLength = 4, Pieces = [], Private = 0, info_Name = ''r'', info_Length = 0,
     info_Md5sum = [], info_Files = [\<lparr>fd_Length = 1, fd_Path = [''..''], fd_Md5sum = []\<rparr>]\<rparr>"

definition long_root :: string where
  "long_root = ''/srv/'' @ replicate 60 (CHR ''a'')"

definition info_x :: InfoDict where
  "info_x = \<lparr>PieceLength = 4, Pieces = [], Private = 0, info_Name = ''r'', info_Length = 0,
     info_Md5sum = [], info_Files = [\<lparr>fd_Length = 1, fd_Path = [''x''], fd_Md5sum = []\<rparr>]\<rparr>"

text \<open>A file system with stale data in a staging file and no final file.\<close>

definition fs_stale :: filesys where
  "fs_stale = \<lparr>nodes = [(''/'', Dir), (''/tmp'', Dir), (''/tmp/t'', Dir),
      (''/tmp/t/x.part'', File [65, 66])], cwd = ''/''\<rparr>"

text \<open>
  A file whose full path without its extension has 67 bytes: its staging name is cut
  after 60 bytes. The store that the construction on an empty file system returns,
  and a file system that holds the staging file with two bytes of data together with
  the complete final file. The same for the short path \<^verbatim>\<open>x\<close> of 1 byte.
\<close>

definition long_name :: string where
  "long_name = replicate 60 (CHR ''a'') @ ''.txt''"

definition cut_part :: string where
  "cut_part = ''/tmp/t/'' @ replicate 53 (CHR ''a'') @ ''[...].txt.part''"

definition info_long :: InfoDict where
  "info_long = \<lparr>PieceLength = 4, Pieces = [], Private = 0, info_Name = ''r'', info_Length = 0,
     info_Md5sum = [], info_Files = [\<lparr>fd_Length = 3, fd_Path = [long_name], fd_Md5sum = []\<rparr>]\<rparr>"

definition st_long :: fileStore where
  "st_long = \<lparr>offsets = [0], files = [\<lparr>fe_length = 3, fe_name = cut_part\<rparr>]\<rparr>"

definition fs_long_stale :: filesys where
  "fs_long_stale = \<lparr>nodes = [(''/'', Dir), (''/tmp'', Dir), (''/tmp/t'', Dir),
      (cut_part, File [65, 66, 0]), (''/tmp/t/'' @ long_name, File [65, 66, 67])], cwd = ''/''\<rparr>"

definition fs_short_stale :: filesys where
  "fs_short_stale = \<lparr>nodes = [(''/'', Dir), (''/tmp'', Dir), (''/tmp/t'', Dir),
      (''/tmp/t/x.part'', File [65]), (''/tmp/t/x'', File [66])], cwd = ''/''\<rparr>"

section \<open>Metainfo\<close>

subsection \<open>Data\<close>

text \<open>
  \<^verbatim>\<open>MetaInfo\<close>; its fields carry the prefix \<open>mi\<close>. The info dictionary is a pointer,
  nil when the descriptor has none.
\<close>

record MetaInfo =
  mi_Info :: "InfoDict option"
  mi_Announce :: string
  mi_AnnounceList :: "string list list"
  mi_CreationDate :: int
  mi_Comment :: string
  mi_CreatedBy :: string
  mi_Encoding :: string
  mi_InfoHash :: string

datatype bencode_error = SyntaxError | TypeMismatch

datatype parse_error = CouldNotParse bencode_error

subsection \<open>NewMetaInfoFromContent\<close>

text \<open>
  The bencode codec is a library outside the repository: the decoder into a
  \<^verbatim>\<open>MetaInfo\<close> and the encoder of the info dictionary are parameters. The function
  returns the parse error when the decoder fails; when the encoder fails it returns
  with both results nil (\<open>Inr None\<close>); otherwise it returns the decoded descriptor
  with the SHA-1 of the re-encoded info dictionary as info-hash.
\<close>

definition NewMetaInfoFromContent ::
  "(string \<Rightarrow> bencode_error + MetaInfo) \<Rightarrow> (InfoDict option \<Rightarrow> bencode_error + string) \<Rightarrow>
   string \<Rightarrow> parse_error + MetaInfo option" where
  "NewMetaInfoFromContent decode encode content =
     (case decode content of
        Inl err1 \<Rightarrow> Inl (CouldNotParse err1)
      | Inr m1 \<Rightarrow>
          (case encode (mi_Info m1) of
             Inl _ \<Rightarrow> Inr None
           | Inr bytes \<Rightarrow> Inr (Some (m1\<lparr>mi_InfoHash := sha1_Sum bytes\<rparr>))))"

subsection \<open>A model of the bencode codec\<close>

text \<open>
  Bencode: integers \<^verbatim>\<open>i...e\<close>, byte strings \<^verbatim>\<open>n:...\<close>, lists \<^verbatim>\<open>l...e\<close> and
  dictionaries \<^verbatim>\<open>d...e\<close> of string keys and values. The parser takes fuel, one
  unit per nesting level and element; the length of the input plus one is enough.
  The numeral of an integer and the length of a string are read by
  \<^verbatim>\<open>strconv.ParseInt\<close>, which accepts a sign; a value is a string only when it starts
  with a digit, while the key of a dictionary is read as a string whatever its first
  byte is.
\<close>

datatype bvalue = BInt int | BString string | BList "bvalue list" | BDict "(string \<times> bvalue) list"

definition bparse_int :: "string \<Rightarrow> (bvalue \<times> string) option" where
  "bparse_int s =
     (let ds = takeWhile (\<lambda>c. c \<noteq> CHR ''e'') s;
          rest = dropWhile (\<lambda>c. c \<noteq> CHR ''e'') s
      in if rest = [] then None
         else (case strconv_Atoi ds of None \<Rightarrow> None | Some v \<Rightarrow> Some (BInt v, tl rest)))"

definition bparse_string :: "string \<Rightarrow> (string \<times> string) option" where
  "bparse_string s =
     (let line = takeWhile (\<lambda>c. c \<noteq> CHR '':'') s;
          rest = dropWhile (\<lambda>c. c \<noteq> CHR '':'') s
      in if rest = [] then None
         else (case strconv_Atoi line of
                 None \<Rightarrow> None
               | Some l \<Rightarrow>
                   (let n = nat l; body = tl rest
                    in if l < 0 \<or> length body < n then None
                       else Some (take n body, drop n body))))"

fun bparse :: "nat \<Rightarrow> string \<Rightarrow> (bvalue \<times> string) option"
  and bparse_list :: "nat \<Rightarrow> string \<Rightarrow> (bvalue list \<times> string) option"
  and bparse_dict :: "nat \<Rightarrow> string \<Rightarrow> ((string \<times> bvalue) list \<times> string) option" where
  "bparse 0 s = None"
| "bparse (Suc n) [] = None"
| "bparse (Suc n) (c # cs) =
     (if c = CHR ''i'' then bparse_int cs
      else if c = CHR ''l'' then
        (case bparse_list n cs of None \<Rightarrow> None | Some (vs, rest) \<Rightarrow> Some (BList vs, rest))
      else if c = CHR ''d'' then
        (case bparse_dict n cs of None \<Rightarrow> None | Some (kvs, rest) \<Rightarrow> Some (BDict kvs, rest))
      else if is_digit c then
        (case bparse_string (c # cs) of None \<Rightarrow> None | Some (b, rest) \<Rightarrow> Some (BString b, rest))
      else None)"
| "bparse_list 0 s = None"
| "bparse_list (Suc n) [] = None"
| "bparse_list (Suc n) (c # cs) =
     (if c = CHR ''e'' then Some ([], cs)
      else (case bparse n (c # cs) of
              None \<Rightarrow> None
            | Some (v, rest) \<Rightarrow>
                (case bparse_list n rest of None \<Rightarrow> None | Some (vs, rest') \<Rightarrow> Some (v # vs, rest'))))"
| "bparse_dict 0 s = None"
| "bparse_dict (Suc n) [] = None"
| "bparse_dict (Suc n) (c # cs) =
     (if c = CHR ''e'' then Some ([], cs)
      else (case bparse_string (c # cs) of
              None \<Rightarrow> None
            | Some (k, rest) \<Rightarrow>
                (case bparse n rest of
                   None \<Rightarrow> None
                 | Some (v, rest') \<Rightarrow>
                     (case bparse_dict n rest' of
                        None \<Rightarrow> None
                      | Some (kvs, rest'') \<Rightarrow> Some ((k, v) # kvs, rest'')))))"

text \<open>
  Decoding into the structs: a key that matches the tag of a field sets the field
  from a value of the field's type, any other key is skipped, and a field whose key
  is absent keeps its zero value. The decoder writes into the value that the field
  holds: a list is stored element by element from index 0 into the slice that is
  there, which is extended when it is too short and never cut, and a dictionary is
  stored into the struct that a pointer already points to. So a key that occurs a
  second time overwrites a number or a string, and is merged into a list or an
  info dictionary. The second argument of the functions below is the value held.
\<close>

fun as_strings :: "bvalue list \<Rightarrow> string list \<Rightarrow> bencode_error + string list" where
  "as_strings [] old = Inr old"
| "as_strings (v # vs) old =
     (case v of
        BString s \<Rightarrow> (case as_strings vs (tl old) of Inl e \<Rightarrow> Inl e | Inr ss \<Rightarrow> Inr (s # ss))
      | _ \<Rightarrow> Inl TypeMismatch)"

fun as_string_lists :: "bvalue list \<Rightarrow> string list list \<Rightarrow> bencode_error + string list list" where
  "as_string_lists [] old = Inr old"
| "as_string_lists (v # vs) old =
     (case v of
        BList l \<Rightarrow>
          (case as_strings l (case old of [] \<Rightarrow> [] | x # _ \<Rightarrow> x) of
             Inl e \<Rightarrow> Inl e
           | Inr ss \<Rightarrow>
               (case as_string_lists vs (tl old) of Inl e \<Rightarrow> Inl e | Inr sss \<Rightarrow> Inr (ss # sss)))
      | _ \<Rightarrow> Inl TypeMismatch)"

fun decode_FileDict :: "(string \<times> bvalue) list \<Rightarrow> FileDict \<Rightarrow> bencode_error + FileDict" where
  "decode_FileDict [] d = Inr d"
| "decode_FileDict ((k, v) # kvs) d =
     (if k = ''length'' then
        (case v of BInt i \<Rightarrow> decode_FileDict kvs (d\<lparr>fd_Length := i\<rparr>) | _ \<Rightarrow> Inl TypeMismatch)
      else if k = ''path'' then
        (case v of
           BList l \<Rightarrow>
             (case as_strings l (fd_Path d) of
                Inl e \<Rightarrow> Inl e
              | Inr ss \<Rightarrow> decode_FileDict kvs (d\<lparr>fd_Path := ss\<rparr>))
         | _ \<Rightarrow> Inl TypeMismatch)
      else if k = ''md5sum'' then
        (case v of BString s \<Rightarrow> decode_FileDict kvs (d\<lparr>fd_Md5sum := s\<rparr>) | _ \<Rightarrow> Inl TypeMismatch)
      else decode_FileDict kvs d)"

definition zero_FileDict :: FileDict where
  "zero_FileDict = \<lparr>fd_Length = 0, fd_Path = [], fd_Md5sum = []\<rparr>"

fun decode_Files :: "bvalue list \<Rightarrow> FileDict list \<Rightarrow> bencode_error + FileDict list" where
  "decode_Files [] old = Inr old"
| "decode_Files (v # vs) old =
     (case v of
        BDict kvs \<Rightarrow>
          (case decode_FileDict kvs (case old of [] \<Rightarrow> zero_FileDict | x # _ \<Rightarrow> x) of
             Inl e \<Rightarrow> Inl e
           | Inr fd \<Rightarrow>
               (case decode_Files vs (tl old) of Inl e \<Rightarrow> Inl e | Inr fds \<Rightarrow> Inr (fd # fds)))
      | _ \<Rightarrow> Inl TypeMismatch)"

fun decode_InfoDict :: "(string \<times> bvalue) list \<Rightarrow> InfoDict \<Rightarrow> bencode_error + InfoDict" where
  "decode_InfoDict [] d = Inr d"
| "decode_InfoDict ((k, v) # kvs) d =
     (if k = ''piece length'' then
        (case v of BInt i \<Rightarrow> decode_InfoDict kvs (d\<lparr>PieceLength := i\<rparr>) | _ \<Rightarrow> Inl TypeMismatch)
      else if k = ''pieces'' then
        (case v of BString s \<Rightarrow> decode_InfoDict kvs (d\<lparr>Pieces := s\<rparr>) | _ \<Rightarrow> Inl TypeMismatch)
      else if k = ''private'' then
        (case v of BInt i \<Rightarrow> decode_InfoDict kvs (d\<lparr>Private := i\<rparr>) | _ \<Rightarrow> Inl TypeMismatch)
      else if k = ''name'' then
        (case v of BString s \<Rightarrow> decode_InfoDict kvs (d\<lparr>info_Name := s\<rparr>) | _ \<Rightarrow> Inl TypeMismatch)
      else if k = ''length'' then
        (case v of BInt i \<Rightarrow> decode_InfoDict kvs (d\<lparr>info_Length := i\<rparr>) | _ \<Rightarrow> Inl TypeMismatch)
      else if k = ''md5sum'' then
        (case v of BString s \<Rightarrow> decode_InfoDict kvs (d\<lparr>info_Md5sum := s\<rparr>) | _ \<Rightarrow> Inl TypeMismatch)
      else if k = ''files'' then
        (case v of
           BList l \<Rightarrow>
             (case decode_Files l (info_Files d) of
                Inl e \<Rightarrow> Inl e
              | Inr fds \<Rightarrow> decode_InfoDict kvs (d\<lparr>info_Files := fds\<rparr>))
         | _ \<Rightarrow> Inl TypeMismatch)
      else decode_InfoDict kvs d)"

definition zero_InfoDict :: InfoDict where
  "zero_InfoDict = \<lparr>PieceLength = 0, Pieces = [], Private = 0, info_Name = [], info_Length = 0,
     info_Md5sum = [], info_Files = []\<rparr>"

fun decode_MetaInfo :: "(string \<times> bvalue) list \<Rightarrow> MetaInfo \<Rightarrow> bencode_error + MetaInfo" where
  "decode_MetaInfo [] m = Inr m"
| "decode_MetaInfo ((k, v) # kvs) m =
     (if k = ''info'' then
        (case v of
           BDict ikvs \<Rightarrow>
             (case decode_InfoDict ikvs (case mi_Info m of None \<Rightarrow> zero_InfoDict | Some d \<Rightarrow> d) of
                Inl e \<Rightarrow> Inl e
              | Inr d \<Rightarrow> decode_MetaInfo kvs (m\<lparr>mi_Info := Some d\<rparr>))
         | _ \<Rightarrow> Inl TypeMismatch)
      else if k = ''announce'' then
        (case v of BString s \<Rightarrow> decode_MetaInfo kvs (m\<lparr>mi_Announce := s\<rparr>) | _ \<Rightarrow> Inl TypeMismatch)
      else if k = ''announce-list'' then
        (case v of
           BList l \<Rightarrow>
             (case as_string_lists l (mi_AnnounceList m) of
                Inl e \<Rightarrow> Inl e
              | Inr sss \<Rightarrow> decode_MetaInfo kvs (m\<lparr>mi_AnnounceList := sss\<rparr>))
         | _ \<Rightarrow> Inl TypeMismatch)
      else if k = ''creation date'' then
        (case v of BInt i \<Rightarrow> decode_MetaInfo kvs (m\<lparr>mi_CreationDate := i\<rparr>) | _ \<Rightarrow> Inl TypeMismatch)
      else if k = ''comment'' then
        (case v of BString s \<Rightarrow> decode_MetaInfo kvs (m\<lparr>mi_Comment := s\<rparr>) | _ \<Rightarrow> Inl TypeMismatch)
      else if k = ''created by'' then
        (case v of BString s \<Rightarrow> decode_MetaInfo kvs (m\<lparr>mi_CreatedBy := s\<rparr>) | _ \<Rightarrow> Inl TypeMismatch)
      else if k = ''encoding'' then
        (case v of BString s \<Rightarrow> decode_MetaInfo kvs (m\<lparr>mi_Encoding := s\<rparr>) | _ \<Rightarrow> Inl TypeMismatch)
      else decode_MetaInfo kvs m)"

definition zero_MetaInfo :: MetaInfo where
  "zero_MetaInfo = \<lparr>mi_Info = None, mi_Announce = [], mi_AnnounceList = [], mi_CreationDate = 0,
     mi_Comment = [], mi_CreatedBy = [], mi_Encoding = [], mi_InfoHash = []\<rparr>"

definition bencode_DecodeString :: "string \<Rightarrow> bencode_error + MetaInfo" where
  "bencode_DecodeString content =
     (case bparse (Suc (length content)) content of
        Some (BDict kvs, _) \<Rightarrow> decode_MetaInfo kvs zero_MetaInfo
      | Some _ \<Rightarrow> Inl TypeMismatch
      | None \<Rightarrow> Inl SyntaxError)"

text \<open>
  Encoding the info dictionary: a dictionary with the keys in sorted order, the
  \<^verbatim>\<open>omitempty\<close> fields left out when zero. For a nil pointer the encoder writes
  nothing and reports no error.
\<close>

definition bstr :: "string \<Rightarrow> string" where
  "bstr s = strconv_Itoa (int (length s)) @ '':'' @ s"

definition bint :: "int \<Rightarrow> string" where
  "bint i = ''i'' @ strconv_Itoa i @ ''e''"

definition bencode_FileDict :: "FileDict \<Rightarrow> string" where
  "bencode_FileDict fd =
     ''d'' @ bstr ''length'' @ bint (fd_Length fd)
     @ (if fd_Md5sum fd \<noteq> [] then bstr ''md5sum'' @ bstr (fd_Md5sum fd) else [])
     @ bstr ''path'' @ ''l'' @ concat (map bstr (fd_Path fd)) @ ''e'' @ ''e''"

definition bencode_InfoDict :: "InfoDict \<Rightarrow> string" where
  "bencode_InfoDict d =
     ''d''
     @ (if info_Files d \<noteq> [] then bstr ''files'' @ ''l'' @ concat (map bencode_FileDict (info_Files d)) @ ''e'' else [])
     @ (if info_Length d \<noteq> 0 then bstr ''length'' @ bint (info_Length d) else [])
     @ (if info_Md5sum d \<noteq> [] then bstr ''md5sum'' @ bstr (info_Md5sum d) else [])
     @ bstr ''name'' @ bstr (info_Name d)
     @ bstr ''piece length'' @ bint (PieceLength d)
     @ bstr ''pieces'' @ bstr (Pieces d)
     @ bstr ''private'' @ bint (Private d)
     @ ''e''"

definition bencode_Encode :: "InfoDict option \<Rightarrow> bencode_error + string" where
  "bencode_Encode i = (case i of None \<Rightarrow> Inr [] | Some d \<Rightarrow> Inr (bencode_InfoDict d))"

text \<open>A descriptor without piece length whose pieces string has 3 bytes.\<close>

definition ex_torrent :: string where
  "ex_torrent = ''d4:infod6:lengthi4e4:name1:a6:pieces3:abcee''"

definition ex_torrent_info :: InfoDict where
  "ex_torrent_info = \<lparr>PieceLength = 0, Pieces = ''abc'', Private = 0, info_Name = ''a'',
     info_Length = 4, info_Md5sum = [], info_Files = []\<rparr>"

section \<open>Verified properties\<close>

subsection \<open>Splitting, decimal numerals and hexadecimal strings\<close>

lemma split_no_sep: "sep \<notin> set b \<Longrightarrow> strings_Split b sep = [b]"
  by (induction b) auto

lemma split_one_sep:
  "sep \<notin> set a \<Longrightarrow> sep \<notin> set b \<Longrightarrow> strings_Split (a @ sep # b) sep = [a, b]"
  by (induction a) (auto simp: split_no_sep)

lemma length_split: "length (strings_Split s sep) = Suc (length (filter (\<lambda>c. c = sep) s))"
  by (induction s) (auto split: list.splits)

lemma hex_digit_not_dash': "d < 16 \<Longrightarrow> hex_digit d \<noteq> CHR ''-''"
  by (auto simp: hex_digit_def char_of_eq_iff take_bit_eq_mod)

lemma hex_digit_not_dash: "d < 16 \<Longrightarrow> CHR ''-'' \<noteq> hex_digit d"
  using hex_digit_not_dash' [of d] by auto

lemma of_char_lt_256: "(of_char b :: nat) < 256"
proof -
  have "(of_char b :: nat) mod 256 = of_char b" by (rule of_char_mod_256)
  moreover have "(of_char b :: nat) mod 256 < 256" by simp
  ultimately show ?thesis by simp
qed

lemma hex_encode_no_dash: "CHR ''-'' \<notin> set (hex_encode bs)"
proof -
  have "of_char b div 16 < (16::nat)" "of_char b mod 16 < (16::nat)" for b :: char
    using of_char_lt_256 [of b] by arith+
  then show ?thesis
    by (auto simp: hex_encode_def hex_digit_not_dash)
qed

lemma digits_val_snoc: "digits_val acc (xs @ [c]) = digits_val acc xs * 10 + digit_val c"
  by (induction xs arbitrary: acc) auto

lemma digit_val_digit_char: "d < 10 \<Longrightarrow> digit_val (digit_char d) = d"
  by (simp add: digit_val_def digit_char_def)

lemma is_digit_digit_char: "d < 10 \<Longrightarrow> is_digit (digit_char d)"
  by (simp add: is_digit_def digit_char_def)

lemma digit_char_not_dash: "d < 10 \<Longrightarrow> digit_char d \<noteq> CHR ''-''"
  by (auto simp: digit_char_def char_of_eq_iff take_bit_eq_mod)

lemma digit_char_not_plus: "d < 10 \<Longrightarrow> digit_char d \<noteq> CHR ''+''"
  by (auto simp: digit_char_def char_of_eq_iff take_bit_eq_mod)

lemma nat_digits_val: "digits_val 0 (nat_digits n) = n"
proof (induction n rule: nat_digits.induct)
  case (1 n)
  show ?case
  proof (cases "n < 10")
    case True
    then show ?thesis by (subst nat_digits.simps) (simp add: digit_val_digit_char)
  next
    case False
    with 1 show ?thesis
      by (subst nat_digits.simps) (simp add: digits_val_snoc digit_val_digit_char)
  qed
qed

lemma nat_digits_all_digits: "list_all is_digit (nat_digits n)"
proof (induction n rule: nat_digits.induct)
  case (1 n)
  then show ?case
    by (subst nat_digits.simps) (simp add: is_digit_digit_char)
qed

lemma nat_digits_nonempty: "nat_digits n \<noteq> []"
  by (subst nat_digits.simps) simp

lemma nat_digits_no_dash: "CHR ''-'' \<notin> set (nat_digits n)"
proof (induction n rule: nat_digits.induct)
  case (1 n)
  then show ?case
    using digit_char_not_dash [of n] digit_char_not_dash [of "n mod 10"]
    by (subst nat_digits.simps) auto
qed

lemma hd_nat_digits: "hd (nat_digits n) \<noteq> CHR ''-'' \<and> hd (nat_digits n) \<noteq> CHR ''+''"
proof (induction n rule: nat_digits.induct)
  case (1 n)
  show ?case
  proof (cases "n < 10")
    case True
    then show ?thesis
      by (subst (1 2) nat_digits.simps) (simp add: digit_char_not_dash digit_char_not_plus)
  next
    case False
    with 1 show ?thesis
      by (subst (1 2) nat_digits.simps) (simp add: nat_digits_nonempty)
  qed
qed

lemma Atoi_Itoa: "0 \<le> n \<Longrightarrow> n \<le> max_int64 \<Longrightarrow> strconv_Atoi (strconv_Itoa n) = Some n"
  using hd_nat_digits [of "nat n"]
  by (simp add: strconv_Atoi_def strconv_Itoa_def nat_digits_nonempty nat_digits_all_digits
      nat_digits_val min_int64_def Let_def)

lemma Itoa_no_dash: "0 \<le> n \<Longrightarrow> CHR ''-'' \<notin> set (strconv_Itoa n)"
  by (simp add: strconv_Itoa_def nat_digits_no_dash)

lemma wrap64_id: "min_int64 \<le> x \<Longrightarrow> x \<le> max_int64 \<Longrightarrow> wrap64 x = x"
  by (simp add: wrap64_def min_int64_def max_int64_def)

lemma next_rev_wellformed:
  assumes "strconv_Atoi c = Some n" and "CHR ''-'' \<notin> set c" and "CHR ''-'' \<notin> set h"
    and "n < max_int64"
  shows "next_rev (c @ ''-'' @ h) ih = strconv_Itoa (n + 1) @ ''-'' @ hex_encode (sha1_Sum (ih @ h))"
proof -
  have s: "strings_Split (c @ CHR ''-'' # h) (CHR ''-'') = [c, h]"
    using assms(2,3) by (rule split_one_sep)
  have "min_int64 \<le> n"
    using assms(1) by (auto simp: strconv_Atoi_def Let_def split: if_splits)
  then have "wrap64 (n + 1) = n + 1"
    using assms(4) by (intro wrap64_id) (simp_all add: min_int64_def)
  then show ?thesis
    using assms(1) by (simp add: next_rev_def s Let_def)
qed

subsection \<open>Peer admission\<close>

lemma AddPeer_dup: "\<exists>p \<in> ran (peers cs). peer_id p = conn_id c \<Longrightarrow> AddPeer M cs c = Some cs"
  by (simp add: AddPeer_def)

lemma AddPeer_full: "card (dom (peers cs)) \<ge> M \<Longrightarrow> AddPeer M cs c = Some cs"
  by (simp add: AddPeer_def)

lemma AddPeer_insert:
  assumes "\<not> (\<exists>p \<in> ran (peers cs). peer_id p = conn_id c)" and "card (dom (peers cs)) < M"
    and "AddPeer M cs c = Some cs'"
  shows "\<exists>ps. peers cs' = (peers cs)(remoteAddr c \<mapsto> ps) \<and> peer_id ps = conn_id c \<and> address ps = remoteAddr c"
proof -
  have nf: "\<not> M \<le> card (dom (peers cs))" using assms(2) by simp
  obtain h7 h5 where h: "byte_at (header c) 7 = Some h7" "byte_at (header c) 5 = Some h5"
    using assms(3) unfolding AddPeer_def if_not_P [OF assms(1)] if_not_P [OF nf]
    by (cases "byte_at (header c) 7"; cases "byte_at (header c) 5") simp_all
  have "cs' = cs\<lparr>peers := (peers cs)(remoteAddr c \<mapsto>
            (if h5 AND 0x10 = 0x10
             then (NewPeerState (remoteAddr c) (conn_id c))\<lparr>sent := sent (NewPeerState (remoteAddr c) (conn_id c)) @ [ExtensionHandshake]\<rparr>
             else NewPeerState (remoteAddr c) (conn_id c)))\<rparr>"
    using assms(3) unfolding AddPeer_def if_not_P [OF assms(1)] if_not_P [OF nf]
    by (simp add: h Let_def)
  then have "peers cs' = (peers cs)(remoteAddr c \<mapsto>
            (if h5 AND 0x10 = 0x10
             then (NewPeerState (remoteAddr c) (conn_id c))\<lparr>sent := sent (NewPeerState (remoteAddr c) (conn_id c)) @ [ExtensionHandshake]\<rparr>
             else NewPeerState (remoteAddr c) (conn_id c))) \<and>
          peer_id (if h5 AND 0x10 = 0x10
             then (NewPeerState (remoteAddr c) (conn_id c))\<lparr>sent := sent (NewPeerState (remoteAddr c) (conn_id c)) @ [ExtensionHandshake]\<rparr>
             else NewPeerState (remoteAddr c) (conn_id c)) = conn_id c \<and>
          address (if h5 AND 0x10 = 0x10
             then (NewPeerState (remoteAddr c) (conn_id c))\<lparr>sent := sent (NewPeerState (remoteAddr c) (conn_id c)) @ [ExtensionHandshake]\<rparr>
             else NewPeerState (remoteAddr c) (conn_id c)) = remoteAddr c"
    by (simp add: NewPeerState_def)
  then show ?thesis by (rule exI)
qed

lemma AddPeer_inv:
  assumes "peers_inv M cs" and "AddPeer M cs c = Some cs'"
  shows "peers_inv M cs'"
proof (cases "(\<exists>p \<in> ran (peers cs). peer_id p = conn_id c) \<or> card (dom (peers cs)) \<ge> M")
  case True
  then have "AddPeer M cs c = Some cs"
    using AddPeer_dup [of cs c M] AddPeer_full [of M cs c] by blast
  then have "cs' = cs" using assms(2) by simp
  then show ?thesis using assms(1) by simp
next
  case False
  then have nd: "\<not> (\<exists>p \<in> ran (peers cs). peer_id p = conn_id c)" and lt: "card (dom (peers cs)) < M"
    by simp_all
  from AddPeer_insert [OF nd lt assms(2)]
  obtain ps where ps: "peers cs' = (peers cs)(remoteAddr c \<mapsto> ps)" "peer_id ps = conn_id c"
    by blast
  have fin: "finite (dom (peers cs))" using assms(1) by (simp add: peers_inv_def)
  have "card (dom (peers cs')) \<le> Suc (card (dom (peers cs)))"
    using fin by (simp add: ps(1) card_insert_if)
  then have c: "card (dom (peers cs')) \<le> M" using lt by simp
  have nodup: "\<And>a p. peers cs a = Some p \<Longrightarrow> peer_id p \<noteq> conn_id c"
    using nd by (auto simp: ran_def)
  have old: "\<And>a b p q. peers cs a = Some p \<Longrightarrow> peers cs b = Some q \<Longrightarrow> peer_id p = peer_id q \<Longrightarrow> a = b"
    using assms(1) unfolding peers_inv_def by blast
  have u: "\<forall>a b p q. peers cs' a = Some p \<longrightarrow> peers cs' b = Some q \<longrightarrow> peer_id p = peer_id q \<longrightarrow> a = b"
  proof (intro allI impI)
    fix a b p q
    assume a: "peers cs' a = Some p" and b: "peers cs' b = Some q" and e: "peer_id p = peer_id q"
    show "a = b"
    proof (cases "a = remoteAddr c")
      case True
      note ta = this
      show ?thesis
      proof (cases "b = remoteAddr c")
        case True
        with ta show ?thesis by simp
      next
        case False
        then have "peers cs b = Some q" using b by (simp add: ps(1))
        moreover have "peer_id q = conn_id c" using a e ta ps by simp
        ultimately show ?thesis using nodup by blast
      qed
    next
      case False
      note fa = this
      then have pa: "peers cs a = Some p" using a by (simp add: ps(1))
      show ?thesis
      proof (cases "b = remoteAddr c")
        case True
        then have "peer_id p = conn_id c" using b e ps by simp
        then show ?thesis using nodup pa by blast
      next
        case False
        then have "peers cs b = Some q" using b by (simp add: ps(1))
        then show ?thesis using old pa e by blast
      qed
    qed
  qed
  have "finite (dom (peers cs'))" using fin by (simp add: ps(1))
  then show ?thesis
    unfolding peers_inv_def using c u by blast
qed

lemma AddPeers_inv:
  "peers_inv M cs \<Longrightarrow> AddPeers M cs conns = Some cs' \<Longrightarrow> peers_inv M cs'"
proof (induction conns arbitrary: cs)
  case Nil
  then show ?case by simp
next
  case (Cons c conns)
  then show ?case
    by (auto split: option.splits dest: AddPeer_inv)
qed

subsection \<open>Revisions\<close>

lemma rev_broadcast [simp]: "cs_rev (broadcast cs ih) = cs_rev cs"
  by (simp add: broadcast_def)

lemma currentIH_broadcast [simp]: "currentIH (broadcast cs ih) = currentIH cs"
  by (simp add: broadcast_def)

lemma SetCurrent_Some:
  "creatable d \<Longrightarrow> \<exists>cs' d'. SetCurrent ih (cs, d) = Some (cs', d') \<and> creatable d' \<and>
     currentIH cs' = ih \<and> cs_rev cs' = next_rev (cs_rev cs) ih"
  by (simp add: SetCurrent_def Let_def)

lemma SetCurrent_SomeD:
  "SetCurrent ih (cs, d) = Some (cs', d') \<Longrightarrow>
     creatable d \<and> creatable d' \<and> currentIH cs' = ih \<and> cs_rev cs' = next_rev (cs_rev cs) ih"
  by (auto simp: SetCurrent_def Let_def split: if_splits)

lemma takeWhile_until: "c \<notin> set xs \<Longrightarrow> takeWhile (\<lambda>x. x \<noteq> c) (xs @ c # ys) = xs"
  by (induction xs) auto

lemma counter_prefix_Itoa:
  "0 \<le> n \<Longrightarrow> counter_prefix (strconv_Itoa n @ ''-'' @ h) = strconv_Itoa n"
  using Itoa_no_dash [of n] by (simp add: counter_prefix_def takeWhile_until)

lemma next_rev_Itoa:
  assumes "0 \<le> k" and "k < max_int64" and "CHR ''-'' \<notin> set h"
  shows "next_rev (strconv_Itoa k @ ''-'' @ h) ih = strconv_Itoa (k + 1) @ ''-'' @ hex_encode (sha1_Sum (ih @ h))"
  using assms by (intro next_rev_wellformed Atoi_Itoa Itoa_no_dash) simp_all

lemma SetCurrents_counter:
  assumes "SetCurrents ihs (cs, d) = Some (cs', d')"
    and "cs_rev cs = strconv_Itoa k @ ''-'' @ h" and "CHR ''-'' \<notin> set h"
    and "0 \<le> k" and "k + int (length ihs) \<le> max_int64"
  shows "\<exists>h'. cs_rev cs' = strconv_Itoa (k + int (length ihs)) @ ''-'' @ h' \<and> CHR ''-'' \<notin> set h'"
  using assms
proof (induction ihs arbitrary: cs d k h)
  case Nil
  then show ?case by auto
next
  case (Cons ih ihs)
  from Cons.prems(1) obtain cs1 d1 where
    s1: "SetCurrent ih (cs, d) = Some (cs1, d1)" and rest: "SetCurrents ihs (cs1, d1) = Some (cs', d')"
    by (auto split: option.splits)
  have "cs_rev cs1 = next_rev (cs_rev cs) ih" using SetCurrent_SomeD [OF s1] by simp
  also have "\<dots> = strconv_Itoa (k + 1) @ ''-'' @ hex_encode (sha1_Sum (ih @ h))"
    unfolding Cons.prems(2) using Cons.prems(3,4,5) by (intro next_rev_Itoa) simp_all
  finally have r1: "cs_rev cs1 = strconv_Itoa (k + 1) @ ''-'' @ hex_encode (sha1_Sum (ih @ h))" .
  have e: "k + 1 + int (length ihs) = k + int (length (ih # ihs))" by simp
  have "\<exists>h'. cs_rev cs' = strconv_Itoa (k + 1 + int (length ihs)) @ ''-'' @ h' \<and> CHR ''-'' \<notin> set h'"
    using Cons.prems(4,5) by (intro Cons.IH [OF rest r1 hex_encode_no_dash]) simp_all
  then show ?case unfolding e .
qed

lemma SetCurrents_Some:
  "creatable d \<Longrightarrow> \<exists>cs' d'. SetCurrents ihs (cs, d) = Some (cs', d')"
proof (induction ihs arbitrary: cs d)
  case Nil
  then show ?case by simp
next
  case (Cons ih ihs)
  from SetCurrent_Some [OF Cons.prems, of ih cs] obtain cs1 d1
    where "SetCurrent ih (cs, d) = Some (cs1, d1)" "creatable d1" by blast
  with Cons.IH [of d1 cs1] show ?case by simp
qed

lemma Itoa_0: "strconv_Itoa 0 = ''0''"
  by (simp add: strconv_Itoa_def nat_digits.simps digit_char_def char_of_eq_iff)


text \<open>
  C1 (as amended). For a revision \<open>c-h\<close> whose counter \<open>c\<close> is accepted by
  \<^verbatim>\<open>strconv.Atoi\<close> with a value \<open>n\<close> below the largest 64-bit integer, and whose
  \<open>c\<close> and \<open>h\<close> hold no \<^verbatim>\<open>'-'\<close>, a successful \<^verbatim>\<open>SetCurrent(ih)\<close> sets
  \<open>currentIH\<close> to \<open>ih\<close> and the revision to the decimal numeral of \<open>n + 1\<close>, a dash and the
  lowercase hexadecimal SHA-1 of \<open>ih\<close> followed by \<open>h\<close>; the call succeeds when the marker
  file can be created. Consequently \<open>N\<close> successful calls starting from \<^verbatim>\<open>"0-"\<close>,
  with \<open>N\<close> below \<open>2^63\<close>, leave the decimal numeral of \<open>N\<close> as the counter prefix.
\<close>

theorem SetCurrent_revision:
  "(\<forall>c h n. cs_rev cs = c @ ''-'' @ h \<and> strconv_Atoi c = Some n \<and> n < max_int64 \<and>
        CHR ''-'' \<notin> set c \<and> CHR ''-'' \<notin> set h \<longrightarrow>
      (creatable d \<longrightarrow> SetCurrent ih (cs, d) \<noteq> None) \<and>
      (\<forall>cs' d'. SetCurrent ih (cs, d) = Some (cs', d') \<longrightarrow>
         currentIH cs' = ih \<and>
         cs_rev cs' = strconv_Itoa (n + 1) @ ''-'' @ hex_encode (sha1_Sum (ih @ h)))) \<and>
   (\<forall>ihs. cs_rev cs = ''0-'' \<and> int (length ihs) \<le> max_int64 \<longrightarrow>
      (creatable d \<longrightarrow> SetCurrents ihs (cs, d) \<noteq> None) \<and>
      (\<forall>cs' d'. SetCurrents ihs (cs, d) = Some (cs', d') \<longrightarrow>
         counter_prefix (cs_rev cs') = strconv_Itoa (int (length ihs))))"
proof (intro conjI allI impI)
  fix c h n
  assume a: "cs_rev cs = c @ ''-'' @ h \<and> strconv_Atoi c = Some n \<and> n < max_int64 \<and>
        CHR ''-'' \<notin> set c \<and> CHR ''-'' \<notin> set h"
  {
    assume "creatable d"
    then show "SetCurrent ih (cs, d) \<noteq> None"
      using SetCurrent_Some [of d ih cs] by auto
  }
  fix cs' d'
  assume s: "SetCurrent ih (cs, d) = Some (cs', d')"
  show "currentIH cs' = ih" using SetCurrent_SomeD [OF s] by simp
  have "cs_rev cs' = next_rev (c @ ''-'' @ h) ih" using SetCurrent_SomeD [OF s] a by simp
  also have "\<dots> = strconv_Itoa (n + 1) @ ''-'' @ hex_encode (sha1_Sum (ih @ h))"
    using a by (intro next_rev_wellformed) simp_all
  finally show "cs_rev cs' = strconv_Itoa (n + 1) @ ''-'' @ hex_encode (sha1_Sum (ih @ h))" .
next
  fix ihs :: "string list"
  assume a: "cs_rev cs = ''0-'' \<and> int (length ihs) \<le> max_int64"
  {
    assume "creatable d"
    then show "SetCurrents ihs (cs, d) \<noteq> None"
      using SetCurrents_Some [of d ihs cs] by auto
  }
  fix cs' d'
  assume s: "SetCurrents ihs (cs, d) = Some (cs', d')"
  have r: "cs_rev cs = strconv_Itoa 0 @ ''-'' @ []" using a by (simp add: Itoa_0)
  from SetCurrents_counter [OF s r] a
  obtain h' where "cs_rev cs' = strconv_Itoa (0 + int (length ihs)) @ ''-'' @ h'" by auto
  then show "counter_prefix (cs_rev cs') = strconv_Itoa (int (length ihs))"
    using counter_prefix_Itoa [of "int (length ihs)" h'] by simp
qed

theorem SetCurrent_revision_witness:
  "cs_rev ex_session = ''0'' @ ''-'' @ [] \<and> strconv_Atoi ''0'' = Some 0 \<and> creatable ex_disk \<and>
   (\<exists>cs' d'. SetCurrent ex_ih (ex_session, ex_disk) = Some (cs', d') \<and>
      currentIH cs' = ex_ih \<and> cs_rev cs' = ''1-'' @ hex_encode (sha1_Sum ex_ih)) \<and>
   (\<exists>cs' d'. SetCurrents [ex_ih, ex_ih, ex_ih] (ex_session, ex_disk) = Some (cs', d') \<and>
      counter_prefix (cs_rev cs') = ''3'')"
proof -
  have a: "strconv_Atoi ''0'' = Some 0"
    by (simp add: strconv_Atoi_def is_digit_def digit_val_def min_int64_def max_int64_def)
  have i1: "strconv_Itoa 1 = ''1''" and i3: "strconv_Itoa 3 = ''3''"
    by (simp_all add: strconv_Itoa_def nat_digits.simps digit_char_def char_of_eq_iff)
  have r: "cs_rev ex_session = ''0-''" and c: "creatable ex_disk"
    by (simp_all add: ex_session_def ex_disk_def)
  have p1: "(creatable ex_disk \<longrightarrow> SetCurrent ex_ih (ex_session, ex_disk) \<noteq> None) \<and>
      (\<forall>cs' d'. SetCurrent ex_ih (ex_session, ex_disk) = Some (cs', d') \<longrightarrow>
         currentIH cs' = ex_ih \<and>
         cs_rev cs' = strconv_Itoa (0 + 1) @ ''-'' @ hex_encode (sha1_Sum (ex_ih @ [])))"
    by (rule SetCurrent_revision [of ex_session ex_disk ex_ih, THEN conjunct1, rule_format,
          of "''0''" "[]" 0]) (simp add: a r max_int64_def)
  have p2: "(creatable ex_disk \<longrightarrow> SetCurrents [ex_ih, ex_ih, ex_ih] (ex_session, ex_disk) \<noteq> None) \<and>
      (\<forall>cs' d'. SetCurrents [ex_ih, ex_ih, ex_ih] (ex_session, ex_disk) = Some (cs', d') \<longrightarrow>
         counter_prefix (cs_rev cs') = strconv_Itoa (int (length [ex_ih, ex_ih, ex_ih])))"
    by (rule SetCurrent_revision [of ex_session ex_disk ex_ih, THEN conjunct2, rule_format,
          of "[ex_ih, ex_ih, ex_ih]"]) (simp add: r max_int64_def)
  from p1 c obtain cs1 d1 where s1: "SetCurrent ex_ih (ex_session, ex_disk) = Some (cs1, d1)"
    by auto
  with p1 have q1: "currentIH cs1 = ex_ih \<and> cs_rev cs1 = ''1-'' @ hex_encode (sha1_Sum ex_ih)"
    by (simp add: i1)
  from p2 c obtain cs3 d3 where
    s3: "SetCurrents [ex_ih, ex_ih, ex_ih] (ex_session, ex_disk) = Some (cs3, d3)"
    by auto
  with p2 have q3: "counter_prefix (cs_rev cs3) = ''3''"
    by (simp add: i3)
  show ?thesis
    using a r c s1 q1 s3 q3 by auto
qed

text \<open>
  C1 as stated fails where the hash part holds a dash (the revision is then treated as
  invalid and restarts from counter 0), and where the counter is the largest 64-bit
  integer (the increment wraps around). The revision \<^verbatim>\<open>"12-a-b"\<close> is one that
  \<^verbatim>\<open>NewControlSession\<close> restores from the marker file, and it fails in the same way.
\<close>

theorem SetCurrent_revision_counterexample:
  "map_option (\<lambda>st. cs_rev (fst st)) (SetCurrent ex_ih (ex_session\<lparr>cs_rev := ''1-a-b''\<rparr>, ex_disk))
     = Some (''1-'' @ hex_encode (sha1_Sum ex_ih)) \<and>
   ''1-'' @ hex_encode (sha1_Sum ex_ih) \<noteq> ''2-'' @ hex_encode (sha1_Sum (ex_ih @ ''a-b'')) \<and>
   restored_rev ''12-a-b'' = ''12-a-b'' \<and>
   map_option (\<lambda>st. cs_rev (fst st)) (SetCurrent ex_ih (ex_session\<lparr>cs_rev := ''12-a-b''\<rparr>, ex_disk))
     = Some (''1-'' @ hex_encode (sha1_Sum ex_ih)) \<and>
   ''1-'' @ hex_encode (sha1_Sum ex_ih) \<noteq> ''13-'' @ hex_encode (sha1_Sum (ex_ih @ ''a-b'')) \<and>
   map_option (\<lambda>st. cs_rev (fst st))
       (SetCurrent ex_ih (ex_session\<lparr>cs_rev := ''9223372036854775807-''\<rparr>, ex_disk))
     = Some (''-9223372036854775808-'' @ hex_encode (sha1_Sum ex_ih))"
  by (simp add: SetCurrent_def ex_disk_def next_rev_def restored_rev_def strconv_Atoi_def
      is_digit_def digit_val_def min_int64_def max_int64_def wrap64_def strconv_Itoa_def
      nat_digits.simps digit_char_def char_of_eq_iff)

text \<open>
  C2: a persisted revision \<^verbatim>\<open>"1-abc"\<close> has the form counter, dash, hexadecimal hash,
  yet the session starts from \<^verbatim>\<open>"0-"\<close>: the source splits at \<^verbatim>\<open>"2"\<close>, not at the
  dash. A revision such as \<^verbatim>\<open>"12-abc"\<close>, with a single \<^verbatim>\<open>'2'\<close> after a
  numeral, is the kind that is restored.
\<close>

theorem NewControlSession_drops_revision:
  "NewControlSession 6881 ''/tmp/bs'' ''-tt4242_1234567890123456''
      \<lparr>current = Stored (NewIHMessage 6881 ex_ih [] ''1-abc''), creatable = True\<rparr>
     = Inr \<lparr>cs_Port = 6881, PeerID = ''-tt4242_123456789012'', currentIH = ex_ih,
             cs_rev = ''0-'', peers = Map.empty, bitshareDir = ''/tmp/bs''\<rparr> \<and>
   restored_rev ''12-abc'' = ''12-abc''"
  by (simp add: NewControlSession_def NewIHMessage_def restored_rev_def strconv_Atoi_def
      is_digit_def digit_val_def min_int64_def max_int64_def)


subsection \<open>Admission of a sequence of peers\<close>

lemma AddPeer_admitted:
  assumes "\<not> (\<exists>p \<in> ran (peers cs). peer_id p = conn_id c)" and "card (dom (peers cs)) < M"
    and "8 \<le> length (header c)"
  shows "AddPeer M cs c \<noteq> None"
proof -
  have nf: "\<not> M \<le> card (dom (peers cs))" using assms(2) by simp
  have "byte_at (header c) 7 = Some (header c ! 7)" "byte_at (header c) 5 = Some (header c ! 5)"
    using assms(3) by (simp_all add: byte_at_def)
  then show ?thesis
    unfolding AddPeer_def if_not_P [OF assms(1)] if_not_P [OF nf] by (simp add: Let_def)
qed

lemma peers_inv_empty: "peers cs = Map.empty \<Longrightarrow> peers_inv M cs"
  by (simp add: peers_inv_def)

text \<open>
  C6 (as amended). A connection whose peer id is already in the table, or that arrives
  when the table holds \<^verbatim>\<open>MAX_NUM_PEERS\<close> peers or more, leaves the table as it is.
  Any other connection (with the 8 reserved header bytes present) is stored under its
  remote address: the table grows by one entry when that address is new, and the
  entry at that address is replaced when it is not. Hence, starting from the empty
  table, the table never holds more than \<^verbatim>\<open>MAX_NUM_PEERS\<close> entries nor two entries
  with the same peer id.
\<close>

theorem AddPeer_admission:
  "((\<exists>p \<in> ran (peers cs). peer_id p = conn_id c) \<longrightarrow> AddPeer M cs c = Some cs) \<and>
   (M \<le> card (dom (peers cs)) \<longrightarrow> AddPeer M cs c = Some cs) \<and>
   (finite (dom (peers cs)) \<and> \<not> (\<exists>p \<in> ran (peers cs). peer_id p = conn_id c) \<and>
    card (dom (peers cs)) < M \<and> 8 \<le> length (header c) \<longrightarrow>
      (\<exists>cs' ps. AddPeer M cs c = Some cs' \<and> peers cs' = (peers cs)(remoteAddr c \<mapsto> ps) \<and>
         peer_id ps = conn_id c \<and> address ps = remoteAddr c \<and>
         card (dom (peers cs')) =
           (if remoteAddr c \<in> dom (peers cs) then card (dom (peers cs))
            else card (dom (peers cs)) + 1))) \<and>
   (\<forall>conns cs'. peers cs = Map.empty \<and> AddPeers M cs conns = Some cs' \<longrightarrow> peers_inv M cs')"
proof (intro conjI allI impI)
  assume "\<exists>p \<in> ran (peers cs). peer_id p = conn_id c"
  then show "AddPeer M cs c = Some cs" by (rule AddPeer_dup)
next
  assume "M \<le> card (dom (peers cs))"
  then show "AddPeer M cs c = Some cs" by (rule AddPeer_full)
next
  assume a: "finite (dom (peers cs)) \<and> \<not> (\<exists>p \<in> ran (peers cs). peer_id p = conn_id c) \<and>
    card (dom (peers cs)) < M \<and> 8 \<le> length (header c)"
  then have nd: "\<not> (\<exists>p \<in> ran (peers cs). peer_id p = conn_id c)" and lt: "card (dom (peers cs)) < M"
    and hl: "8 \<le> length (header c)" and fin: "finite (dom (peers cs))"
    by simp_all
  from AddPeer_admitted [OF nd lt hl] obtain cs' where s: "AddPeer M cs c = Some cs'" by auto
  from AddPeer_insert [OF nd lt s] obtain ps where
    ps: "peers cs' = (peers cs)(remoteAddr c \<mapsto> ps)" "peer_id ps = conn_id c" "address ps = remoteAddr c"
    by blast
  have "card (dom (peers cs')) =
           (if remoteAddr c \<in> dom (peers cs) then card (dom (peers cs))
            else card (dom (peers cs)) + 1)"
    using fin by (simp add: ps(1) card_insert_if)
  with s ps show "\<exists>cs' ps. AddPeer M cs c = Some cs' \<and> peers cs' = (peers cs)(remoteAddr c \<mapsto> ps) \<and>
         peer_id ps = conn_id c \<and> address ps = remoteAddr c \<and>
         card (dom (peers cs')) =
           (if remoteAddr c \<in> dom (peers cs) then card (dom (peers cs))
            else card (dom (peers cs)) + 1)"
    by blast
next
  fix conns cs'
  assume "peers cs = Map.empty \<and> AddPeers M cs conns = Some cs'"
  then show "peers_inv M cs'"
    using AddPeers_inv [of M cs conns cs'] peers_inv_empty [of cs M] by blast
qed

theorem AddPeer_admission_witness:
  "peers (ex_session\<lparr>peers := Map.empty\<rparr>) = Map.empty \<and>
   AddPeers 1 (ex_session\<lparr>peers := Map.empty\<rparr>) [ex_conn, ex_conn]
     = Some (ex_session\<lparr>peers := [''10.0.0.1:6881'' \<mapsto> NewPeerState ''10.0.0.1:6881'' ''-tt2000_bbbbbbbbbbbb'']\<rparr>) \<and>
   peers_inv 1 (ex_session\<lparr>peers := [''10.0.0.1:6881'' \<mapsto> NewPeerState ''10.0.0.1:6881'' ''-tt2000_bbbbbbbbbbbb'']\<rparr>)"
proof -
  have e: "peers (ex_session\<lparr>peers := Map.empty\<rparr>) = Map.empty" by simp
  have r: "AddPeers 1 (ex_session\<lparr>peers := Map.empty\<rparr>) [ex_conn, ex_conn]
     = Some (ex_session\<lparr>peers := [''10.0.0.1:6881'' \<mapsto> NewPeerState ''10.0.0.1:6881'' ''-tt2000_bbbbbbbbbbbb'']\<rparr>)"
    by (simp add: AddPeer_def ex_session_def ex_conn_def NewPeerState_def byte_at_def)
  show ?thesis
    using AddPeer_admission [of "ex_session\<lparr>peers := Map.empty\<rparr>" ex_conn 1,
        THEN conjunct2, THEN conjunct2, THEN conjunct2, rule_format, OF conjI, OF e r] e r
    by simp
qed

text \<open>
  C6 as stated fails for a connection from an address that is already a key of the
  table: its peer id is new and the table is not full, yet the table has one entry
  before and one entry after, the old peer having been replaced.
\<close>

theorem AddPeer_admission_counterexample:
  "AddPeer 2 ex_session ex_conn =
     Some (ex_session\<lparr>peers := [''10.0.0.1:6881'' \<mapsto> NewPeerState ''10.0.0.1:6881'' ''-tt2000_bbbbbbbbbbbb'']\<rparr>) \<and>
   peers ex_session = [''10.0.0.1:6881'' \<mapsto> ex_peer] \<and>
   peer_id ex_peer \<noteq> conn_id ex_conn \<and>
   card (dom (peers ex_session)) = 1 \<and>
   card (dom [''10.0.0.1:6881'' \<mapsto> NewPeerState ''10.0.0.1:6881'' ''-tt2000_bbbbbbbbbbbb'']) = 1"
  by (simp add: AddPeer_def ex_session_def ex_conn_def ex_peer_def NewPeerState_def byte_at_def)

subsection \<open>The file system operations\<close>

lemma lookup_put [simp]: "lookup (put fs k n) k' = (if k' = k then Some n else lookup fs k')"
  by (simp add: lookup_def put_def update_conv')

lemma cwd_put [simp]: "cwd (put fs k n) = cwd fs"
  by (simp add: put_def)

lemma abs_path_put [simp]: "abs_path (put fs k n) p = abs_path fs p"
  by (simp add: abs_path_def)

lemma lookup_unlink [simp]: "lookup (unlink fs k) k' = (if k' = k then None else lookup fs k')"
  by (simp add: lookup_def unlink_def delete_conv')

lemma cwd_unlink [simp]: "cwd (unlink fs k) = cwd fs"
  by (simp add: unlink_def)

lemma abs_path_unlink [simp]: "abs_path (unlink fs k) p = abs_path fs p"
  by (simp add: abs_path_def)

lemma is_file_iff: "is_file n \<longleftrightarrow> (\<exists>c. n = Some (File c))"
  by (auto simp: is_file_def split: option.splits node.splits)

subsection \<open>Binary search\<close>

lemma search_loop_spec:
  assumes "\<And>a b. a \<le> b \<Longrightarrow> f a \<Longrightarrow> f b"
    and "i \<le> j" and "\<And>k. k < i \<Longrightarrow> \<not> f k" and "\<And>k. j \<le> k \<Longrightarrow> k < n \<Longrightarrow> f k" and "j \<le> n"
  shows "i \<le> search_loop f i j \<and> search_loop f i j \<le> j \<and>
         (\<forall>k < search_loop f i j. \<not> f k) \<and> (\<forall>k. search_loop f i j \<le> k \<and> k < n \<longrightarrow> f k)"
  using assms
proof (induction f i j rule: search_loop.induct)
  case (1 f i j)
  note mono = "1.prems"(1) and below = "1.prems"(3) and above = "1.prems"(4)
  show ?case
  proof (cases "i < j")
    case False
    with "1.prems"(2) have "i = j" by simp
    then have e: "search_loop f i j = i" by (subst search_loop.simps) simp
    show ?thesis unfolding e using \<open>i = j\<close> below above by auto
  next
    case True
    define h where "h = (i + j) div 2"
    have hb: "i \<le> h" "h < j" using True by (simp_all add: h_def)
    show ?thesis
    proof (cases "f h")
      case False
      have below': "\<And>k. k < h + 1 \<Longrightarrow> \<not> f k"
      proof
        fix k assume "k < h + 1" and "f k"
        then have "f h" using mono [of k h] by simp
        with False show False by simp
      qed
      have e: "search_loop f i j = search_loop f (h + 1) j"
        using True False by (subst search_loop.simps) (simp add: h_def Let_def)
      have "h + 1 \<le> search_loop f (h + 1) j \<and> search_loop f (h + 1) j \<le> j \<and>
         (\<forall>k < search_loop f (h + 1) j. \<not> f k) \<and> (\<forall>k. search_loop f (h + 1) j \<le> k \<and> k < n \<longrightarrow> f k)"
      proof (rule "1.IH"(1) [OF True _ _ mono])
        show "h = (i + j) div 2" by (rule h_def)
        show "\<not> f h" by (rule False)
        show "h + 1 \<le> j" using hb by simp
        show "\<And>k. k < h + 1 \<Longrightarrow> \<not> f k" by (rule below')
        show "\<And>k. j \<le> k \<Longrightarrow> k < n \<Longrightarrow> f k" by (rule above)
        show "j \<le> n" by (rule "1.prems"(5))
      qed
      then show ?thesis unfolding e using hb by auto
    next
      case True
      note fh = this
      have above': "\<And>k. h \<le> k \<Longrightarrow> k < n \<Longrightarrow> f k"
        using fh mono by blast
      have e: "search_loop f i j = search_loop f i h"
        using \<open>i < j\<close> fh by (subst search_loop.simps) (simp add: h_def Let_def)
      have "i \<le> search_loop f i h \<and> search_loop f i h \<le> h \<and>
         (\<forall>k < search_loop f i h. \<not> f k) \<and> (\<forall>k. search_loop f i h \<le> k \<and> k < n \<longrightarrow> f k)"
      proof (rule "1.IH"(2) [OF \<open>i < j\<close> _ _ mono])
        show "h = (i + j) div 2" by (rule h_def)
        show "\<not> \<not> f h" using fh by simp
        show "i \<le> h" using hb by simp
        show "\<And>k. k < i \<Longrightarrow> \<not> f k" by (rule below)
        show "\<And>k. h \<le> k \<Longrightarrow> k < n \<Longrightarrow> f k" by (rule above')
        show "h \<le> n" using hb "1.prems"(5) by simp
      qed
      then show ?thesis unfolding e using hb by auto
    qed
  qed
qed


subsection \<open>Offsets of a well-formed store\<close>

lemma wf_len: "wf_store f \<Longrightarrow> length (offsets f) = length (files f)"
  unfolding wf_store_def by (elim conjE)

lemma wf_off:
  assumes "wf_store f" and "i < length (files f)"
  shows "offsets f ! i = prefix_size f i"
proof -
  have "offsets f = map (prefix_size f) [0..<length (files f)]"
    using assms(1) unfolding wf_store_def by (elim conjE)
  then have "offsets f ! i = map (prefix_size f) [0..<length (files f)] ! i" by (rule arg_cong)
  also have "\<dots> = prefix_size f i" using assms(2) by simp
  finally show ?thesis .
qed

lemma wf_nonneg:
  assumes "wf_store f" and "i < length (files f)"
  shows "0 \<le> fe_length (files f ! i)"
proof -
  have "list_all (\<lambda>fe. 0 \<le> fe_length fe) (files f)"
    using assms(1) unfolding wf_store_def by (elim conjE)
  then show ?thesis using assms(2) by (simp add: list_all_length)
qed

lemma prefix_Suc:
  "i < length (files f) \<Longrightarrow> prefix_size f (Suc i) = prefix_size f i + fe_length (files f ! i)"
  by (simp add: prefix_size_def take_Suc_conv_app_nth)

lemma prefix_0 [simp]: "prefix_size f 0 = 0"
  by (simp add: prefix_size_def)

lemma prefix_total: "prefix_size f (length (files f)) = totalSize f"
  by (simp add: prefix_size_def totalSize_def)

lemma prefix_step_le:
  assumes "wf_store f"
  shows "prefix_size f i \<le> prefix_size f (Suc i)"
proof (cases "i < length (files f)")
  case True
  then show ?thesis using wf_nonneg [OF assms True] by (simp add: prefix_Suc)
next
  case False
  then show ?thesis by (simp add: prefix_size_def)
qed

lemma prefix_mono:
  assumes "wf_store f" and "i \<le> j"
  shows "prefix_size f i \<le> prefix_size f j"
  using assms(2)
proof (induction j)
  case 0
  then show ?case by simp
next
  case (Suc j)
  show ?case
  proof (cases "i = Suc j")
    case True
    then show ?thesis by simp
  next
    case False
    with Suc.prems have "i \<le> j" by simp
    then have "prefix_size f i \<le> prefix_size f j" by (rule Suc.IH)
    also have "\<dots> \<le> prefix_size f (Suc j)" by (rule prefix_step_le [OF assms(1)])
    finally show ?thesis .
  qed
qed

lemma prefix_le_total:
  assumes "wf_store f"
  shows "prefix_size f i \<le> totalSize f"
proof (cases "i \<le> length (files f)")
  case True
  then show ?thesis using prefix_mono [OF assms True] by (simp add: prefix_total)
next
  case False
  then show ?thesis by (simp add: prefix_size_def totalSize_def)
qed

lemma find_fs_spec:
  assumes "wf_store f" and "0 \<le> off"
  shows "find_fs f off \<le> length (files f) \<and> (files f \<noteq> [] \<longrightarrow> find_fs f off < length (files f)) \<and>
         prefix_size f (find_fs f off) \<le> off"
proof -
  define n where "n = length (files f)"
  define pr where "pr = (\<lambda>i. if int i \<ge> int (length (offsets f)) - 1 then True
            else offsets f ! (i + 1) \<ge> off)"
  have len: "length (offsets f) = n" using assms(1) by (simp add: wf_len n_def)
  have mono: "\<And>a b. a \<le> b \<Longrightarrow> pr a \<Longrightarrow> pr b"
  proof -
    fix a b :: nat
    assume ab: "a \<le> b" and pa: "pr a"
    show "pr b"
    proof (cases "int b \<ge> int n - 1")
      case True
      then show ?thesis by (simp add: pr_def len)
    next
      case False
      then have b: "b + 1 < n" and a: "a + 1 < n" using ab by simp_all
      then have "offsets f ! (a + 1) \<ge> off" using pa by (simp add: pr_def len)
      moreover have "offsets f ! (a + 1) \<le> offsets f ! (b + 1)"
        using prefix_mono [OF assms(1), of "a + 1" "b + 1"] ab a b
        by (simp add: wf_off [OF assms(1)] n_def)
      ultimately show ?thesis using b by (simp add: pr_def len)
    qed
  qed
  define r where "r = search_loop pr 0 n"
  have spec: "0 \<le> r \<and> r \<le> n \<and> (\<forall>k < r. \<not> pr k) \<and> (\<forall>k. r \<le> k \<and> k < n \<longrightarrow> pr k)"
    unfolding r_def by (rule search_loop_spec [OF mono]) simp_all
  have fr: "find_fs f off = r"
    by (simp add: find_fs_def sort_Search_def r_def pr_def len)
  have lt: "r < n" if "n \<noteq> 0"
  proof (rule ccontr)
    assume "\<not> r < n"
    then have "n - 1 < r" using that spec by simp
    then have "\<not> pr (n - 1)" using spec by blast
    then show False using that by (simp add: pr_def len)
  qed
  have le: "prefix_size f r \<le> off"
  proof (cases r)
    case 0
    then show ?thesis using assms(2) by simp
  next
    case (Suc k)
    then have "\<not> pr k" using spec by simp
    then have "k + 1 < n" "offsets f ! (k + 1) < off"
      by (simp_all add: pr_def len split: if_splits)
    then show ?thesis using Suc by (simp add: wf_off [OF assms(1)] n_def)
  qed
  show ?thesis
    using spec lt le by (auto simp: fr n_def)
qed

subsection \<open>Writing into one entry\<close>

lemma backed_put:
  "backed f fs \<Longrightarrow> backed f (put fs k (File c))"
  by (auto simp: backed_def list_all_iff is_file_def)

lemma backed_entry:
  "backed f fs \<Longrightarrow> i < length (files f) \<Longrightarrow>
     \<exists>c. lookup fs (abs_path fs (fe_name (files f ! i))) = Some (File c)"
  by (simp add: backed_def list_all_length is_file_iff)

lemma fe_WriteAt_file:
  assumes "lookup fs (abs_path fs (fe_name fe)) = Some (File c)" and "0 \<le> io"
  shows "fe_WriteAt fs fe d io =
     (put fs (abs_path fs (fe_name fe))
        (File (take (nat io) c @ replicate (nat io - length c) 0 @ d @ drop (nat io + length d) c)),
      int (length d), None)"
  using assms by (simp add: fe_WriteAt_def file_WriteAt_def)

lemma fe_ReadAt_written:
  assumes "lookup fs (abs_path fs (fe_name fe)) =
      Some (File (take (nat io) c @ replicate (nat io - length c) 0 @ d @ drop (nat io + length d) c))"
    and "0 \<le> io"
  shows "fe_ReadAt fs fe (length d) io = (d, None)"
proof -
  have "length (take (nat io) c @ replicate (nat io - length c) (0::byte)) = nat io"
    by simp
  then have "drop (nat io) (take (nat io) c @ replicate (nat io - length c) 0 @ d @ drop (nat io + length d) c)
      = d @ drop (nat io + length d) c"
    by (metis append.assoc append_eq_conv_conj)
  then show ?thesis
    using assms by (simp add: fe_ReadAt_def file_ReadAt_def)
qed

subsection \<open>The write loop\<close>

lemma WriteAt_loop_stop:
  "p = [] \<or> length (offsets f) \<le> index \<Longrightarrow> WriteAt_loop f fs index p off n = (fs, n, None, p)"
  by (subst WriteAt_loop.simps) auto

lemma WriteAt_loop_skip:
  assumes "p \<noteq> []" and "index < length (offsets f)" and "index < length (files f)"
    and "\<not> off - offsets f ! index < fe_length (files f ! index)"
  shows "WriteAt_loop f fs index p off n = WriteAt_loop f fs (index + 1) p off n"
  using assms by (subst WriteAt_loop.simps) (simp add: Let_def)

lemma WriteAt_loop_write:
  assumes "p \<noteq> []" and "index < length (offsets f)" and "index < length (files f)"
    and "off - offsets f ! index < fe_length (files f ! index)"
    and "chunk = (if fe_length (files f ! index) - (off - offsets f ! index) < int (length p)
                  then fe_length (files f ! index) - (off - offsets f ! index) else int (length p))"
    and "fe_WriteAt fs (files f ! index) (take (nat chunk) p) (off - offsets f ! index) = (fs1, chunk, None)"
  shows "WriteAt_loop f fs index p off n =
           WriteAt_loop f fs1 (index + 1) (drop (nat chunk) p) (off + chunk) (n + chunk)"
  using assms(1-4) assms(6) [unfolded assms(5)]
  by (subst WriteAt_loop.simps) (simp add: Let_def assms(5) [symmetric])

lemma write_post_stop:
  assumes "backed f fs" and "p = [] \<or> (length (offsets f) \<le> index \<and> nat (totalSize f - off) = 0)"
  shows "write_post f fs index p off n fs"
  using assms by (auto simp: write_post_def WriteAt_loop_stop)

lemma WriteAt_loop_spec:
  assumes "wf_store f" and "backed f fs" and "index \<le> length (files f)"
    and "p \<noteq> [] \<Longrightarrow> prefix_size f index \<le> off"
  shows "\<exists>fs'. write_post f fs index p off n fs'"
  using assms(2-)
proof (induction "length (files f) - index" arbitrary: fs index p off n)
  case 0
  then have idx: "index = length (files f)" by simp
  have stop: "length (offsets f) \<le> index" using idx wf_len [OF assms(1)] by simp
  have k0: "p \<noteq> [] \<Longrightarrow> nat (totalSize f - off) = 0"
    using "0.prems"(3) idx by (simp add: prefix_total)
  have "write_post f fs index p off n fs"
    using stop k0 by (intro write_post_stop [OF "0.prems"(1)]) auto
  then show ?case ..
next
  case (Suc m)
  then have idx: "index < length (files f)" by simp
  then have idxo: "index < length (offsets f)" using wf_len [OF assms(1)] by simp
  let ?k = "nat (totalSize f - off)"
  show ?case
  proof (cases "p = []")
    case True
    then have "write_post f fs index p off n fs"
      by (intro write_post_stop [OF Suc.prems(1)]) simp
    then show ?thesis ..
  next
    case False
    note pne = this
    have inv: "prefix_size f index \<le> off" using Suc.prems(3) pne by simp
    have oi: "offsets f ! index = prefix_size f index" by (rule wf_off [OF assms(1) idx])
    have nxt: "prefix_size f (Suc index) = prefix_size f index + fe_length (files f ! index)"
      by (rule prefix_Suc [OF idx])
    have tot: "prefix_size f (Suc index) \<le> totalSize f" by (rule prefix_le_total [OF assms(1)])
    have m: "m = length (files f) - (index + 1)" using Suc.hyps(2) by simp
    have sub: "set (drop (index + 1) (files f)) \<subseteq> set (drop index (files f))"
      by (simp add: set_drop_subset_set_drop)
    show ?thesis
    proof (cases "off - offsets f ! index < fe_length (files f ! index)")
      case False
      note skip = this
      have e: "WriteAt_loop f fs index p off n = WriteAt_loop f fs (index + 1) p off n"
        by (rule WriteAt_loop_skip [OF pne idxo idx skip])
      have "\<exists>fs'. write_post f fs (index + 1) p off n fs'"
      proof (rule Suc.hyps(1))
        show "m = length (files f) - (index + 1)" by (rule m)
        show "backed f fs" by (rule Suc.prems(1))
        show "index + 1 \<le> length (files f)" using idx by simp
        show "prefix_size f (index + 1) \<le> off" using skip oi nxt by simp
      qed
      then obtain fs' where ih: "write_post f fs (index + 1) p off n fs'" ..
      have ih5: "fst (WriteAt_loop f fs (index + 1) (take ?k p) off n) = fs'"
        using ih by (simp add: write_post_def)
      have t: "fst (WriteAt_loop f fs index (take ?k p) off n) = fs'"
      proof (cases "take ?k p = []")
        case True
        then show ?thesis using ih5 by (simp add: WriteAt_loop_stop)
      next
        case False
        then show ?thesis
          using ih5 by (simp add: WriteAt_loop_skip [OF False idxo idx skip])
      qed
      have "write_post f fs index p off n fs'"
        unfolding write_post_def e using ih t sub unfolding write_post_def by auto
      then show ?thesis ..
    next
      case True
      note inside = this
      let ?entry = "files f ! index"
      let ?io = "off - offsets f ! index"
      define chunk where "chunk = (if fe_length ?entry - ?io < int (length p)
                  then fe_length ?entry - ?io else int (length p))"
      have io0: "0 \<le> ?io" using inv oi by simp
      have ch: "0 < chunk" "chunk \<le> int (length p)" "chunk \<le> fe_length ?entry - ?io"
        using inside pne by (simp_all add: chunk_def)
      have chk: "chunk \<le> totalSize f - off" using ch(3) tot nxt oi by simp
      have lt: "length (take (nat chunk) p) = nat chunk" using ch by simp
      from backed_entry [OF Suc.prems(1) idx] obtain c where
        c: "lookup fs (abs_path fs (fe_name ?entry)) = Some (File c)" by blast
      define fs1 where "fs1 = put fs (abs_path fs (fe_name ?entry))
        (File (take (nat ?io) c @ replicate (nat ?io - length c) 0 @ take (nat chunk) p
               @ drop (nat ?io + length (take (nat chunk) p)) c))"
      have w: "fe_WriteAt fs ?entry (take (nat chunk) p) ?io = (fs1, chunk, None)"
        using fe_WriteAt_file [OF c io0, of "take (nat chunk) p"] ch by (simp add: fs1_def lt)
      have b1: "backed f fs1" unfolding fs1_def by (rule backed_put [OF Suc.prems(1)])
      have cw1: "cwd fs1 = cwd fs" by (simp add: fs1_def)
      have ap1: "\<And>q. abs_path fs1 q = abs_path fs q" by (simp add: fs1_def)
      have e: "WriteAt_loop f fs index p off n =
           WriteAt_loop f fs1 (index + 1) (drop (nat chunk) p) (off + chunk) (n + chunk)"
        by (rule WriteAt_loop_write [OF pne idxo idx inside chunk_def w])
      have k': "nat (totalSize f - (off + chunk)) = ?k - nat chunk"
        using chk ch by simp
      have kge: "nat chunk \<le> ?k" using chk ch by simp
      have "\<exists>fs'. write_post f fs1 (index + 1) (drop (nat chunk) p) (off + chunk) (n + chunk) fs'"
      proof (rule Suc.hyps(1))
        show "m = length (files f) - (index + 1)" by (rule m)
        show "backed f fs1" by (rule b1)
        show "index + 1 \<le> length (files f)" using idx by simp
        show "prefix_size f (index + 1) \<le> off + chunk" if "drop (nat chunk) p \<noteq> []"
        proof -
          from that have "chunk < int (length p)" by simp
          then have "chunk = fe_length ?entry - ?io" by (simp add: chunk_def split: if_splits)
          then show ?thesis using nxt oi by simp
        qed
      qed
      then obtain fs' where ih0: "write_post f fs1 (index + 1) (drop (nat chunk) p) (off + chunk) (n + chunk) fs'" ..
      have ih: "WriteAt_loop f fs1 (index + 1) (drop (nat chunk) p) (off + chunk) (n + chunk) =
            (fs', n + chunk + int (length (drop (nat chunk) p))
                   - int (length (drop (?k - nat chunk) (drop (nat chunk) p))), None,
             drop (?k - nat chunk) (drop (nat chunk) p))"
          "backed f fs'" "cwd fs' = cwd fs1"
          "\<forall>k. k \<notin> (\<lambda>fe. abs_path fs1 (fe_name fe)) ` set (drop (index + 1) (files f)) \<longrightarrow>
               lookup fs' k = lookup fs1 k"
          "fst (WriteAt_loop f fs1 (index + 1) (take (?k - nat chunk) (drop (nat chunk) p)) (off + chunk) (n + chunk)) = fs'"
        using ih0 unfolding write_post_def k' by blast+
      have dd: "drop (?k - nat chunk) (drop (nat chunk) p) = drop ?k p"
        using kge by simp
      have cnt: "n + chunk + int (length (drop (nat chunk) p)) = n + int (length p)"
        using ch by simp
      have r1: "WriteAt_loop f fs index p off n =
            (fs', n + int (length p) - int (length (drop ?k p)), None, drop ?k p)"
        unfolding e ih(1) dd cnt ..
      have frame: "\<forall>k. k \<notin> (\<lambda>fe. abs_path fs (fe_name fe)) ` set (drop index (files f)) \<longrightarrow>
               lookup fs' k = lookup fs k"
      proof (intro allI impI)
        fix k
        assume k: "k \<notin> (\<lambda>fe. abs_path fs (fe_name fe)) ` set (drop index (files f))"
        then have "k \<notin> (\<lambda>fe. abs_path fs1 (fe_name fe)) ` set (drop (index + 1) (files f))"
          using sub by (auto simp: ap1)
        then have "lookup fs' k = lookup fs1 k" using ih(4) by simp
        moreover have "?entry \<in> set (drop index (files f))"
          using idx by (metis Cons_nth_drop_Suc list.set_intros(1))
        then have "k \<noteq> abs_path fs (fe_name ?entry)" using k by auto
        then have "lookup fs1 k = lookup fs k" by (simp add: fs1_def)
        ultimately show "lookup fs' k = lookup fs k" by simp
      qed
      have tne: "take ?k p \<noteq> []" using pne kge ch by auto
      have tch: "chunk = (if fe_length ?entry - ?io < int (length (take ?k p))
                  then fe_length ?entry - ?io else int (length (take ?k p)))"
        using ch chk by (auto simp: chunk_def)
      have tt: "take (nat chunk) (take ?k p) = take (nat chunk) p"
        using kge by (simp add: min_def)
      have w': "fe_WriteAt fs ?entry (take (nat chunk) (take ?k p)) ?io = (fs1, chunk, None)"
        unfolding tt by (rule w)
      have dt: "drop (nat chunk) (take ?k p) = take (?k - nat chunk) (drop (nat chunk) p)"
        by (simp add: drop_take)
      have t: "fst (WriteAt_loop f fs index (take ?k p) off n) = fs'"
        unfolding WriteAt_loop_write [OF tne idxo idx inside tch w'] dt by (rule ih(5))
      have "write_post f fs index p off n fs'"
        unfolding write_post_def using r1 ih(2) ih(3) cw1 frame t by simp
      then show ?thesis ..
    qed
  qed
qed

subsection \<open>Reading back what was written\<close>

lemma ReadAt_loop_stop:
  "p = [] \<or> length (offsets f) \<le> index \<Longrightarrow>
     ReadAt_loop f fs index p off n = (replicate (length p) 0, n, None)"
  by (subst ReadAt_loop.simps) auto

lemma ReadAt_loop_skip:
  assumes "p \<noteq> []" and "index < length (offsets f)" and "index < length (files f)"
    and "\<not> off - offsets f ! index < fe_length (files f ! index)"
  shows "ReadAt_loop f fs index p off n = ReadAt_loop f fs (index + 1) p off n"
  using assms by (subst ReadAt_loop.simps) (simp add: Let_def)

lemma ReadAt_loop_read:
  assumes "p \<noteq> []" and "index < length (offsets f)" and "index < length (files f)"
    and "off - offsets f ! index < fe_length (files f ! index)"
    and "chunk = (if fe_length (files f ! index) - (off - offsets f ! index) < int (length p)
                  then fe_length (files f ! index) - (off - offsets f ! index) else int (length p))"
    and "fe_ReadAt fs (files f ! index) (nat chunk) (off - offsets f ! index) = (d, None)"
  shows "ReadAt_loop f fs index p off n =
           (d @ fst (ReadAt_loop f fs (index + 1) (drop (length d) p) (off + int (length d)) (n + int (length d))),
            snd (ReadAt_loop f fs (index + 1) (drop (length d) p) (off + int (length d)) (n + int (length d))))"
  using assms(1-4) assms(6) [unfolded assms(5)]
  by (subst ReadAt_loop.simps) (simp add: Let_def assms(5) [symmetric])

lemma abs_path_cwd: "cwd fs' = cwd fs \<Longrightarrow> abs_path fs' q = abs_path fs q"
  by (simp add: abs_path_def)

lemma unaliased_cwd:
  assumes "cwd fs' = cwd fs"
  shows "unaliased f fs' = unaliased f fs"
proof -
  have "\<And>q. abs_path fs' q = abs_path fs q" by (rule abs_path_cwd [OF assms])
  then show ?thesis by (simp add: unaliased_def)
qed

lemma write_post_same:
  assumes "write_post f fs i p off n a" and "write_post f fs2 i2 p2 off2 n2 b"
    and "WriteAt_loop f fs i p off n = WriteAt_loop f fs2 i2 p2 off2 n2"
  shows "a = b"
proof -
  have "fst (WriteAt_loop f fs i p off n) = a" using assms(1) by (simp add: write_post_def)
  moreover have "fst (WriteAt_loop f fs2 i2 p2 off2 n2) = b" using assms(2) by (simp add: write_post_def)
  ultimately show ?thesis using assms(3) by simp
qed

lemma unaliased_later:
  assumes "unaliased f fs" and "index < length (files f)"
  shows "abs_path fs (fe_name (files f ! index)) \<notin>
           (\<lambda>fe. abs_path fs (fe_name fe)) ` set (drop (index + 1) (files f))"
proof
  let ?g = "\<lambda>fe. abs_path fs (fe_name fe)"
  assume "?g (files f ! index) \<in> ?g ` set (drop (index + 1) (files f))"
  then obtain fe where fe: "fe \<in> set (drop (index + 1) (files f))" "?g fe = ?g (files f ! index)"
    by auto
  from fe(1) obtain j where j: "j < length (drop (index + 1) (files f))"
      "drop (index + 1) (files f) ! j = fe"
    by (auto simp: in_set_conv_nth)
  have jl: "index + 1 + j < length (files f)" using j(1) by simp
  have "files f ! (index + 1 + j) = fe" using j jl by simp
  then have "map ?g (files f) ! (index + 1 + j) = map ?g (files f) ! index"
    using fe(2) jl assms(2) by simp
  moreover have "distinct (map ?g (files f))" using assms(1) by (simp add: unaliased_def)
  ultimately have "index + 1 + j = index"
    using jl assms(2) nth_eq_iff_index_eq [of "map ?g (files f)" "index + 1 + j" index]
    by (simp del: nth_map)
  then show False by simp
qed

lemma ReadAt_loop_after_write:
  assumes "wf_store f"
  shows "unaliased f fs \<Longrightarrow> backed f fs \<Longrightarrow> index \<le> length (files f) \<Longrightarrow>
     (p \<noteq> [] \<Longrightarrow> prefix_size f index \<le> off) \<Longrightarrow> off + int (length p) \<le> totalSize f \<Longrightarrow>
     write_post f fs index p off n fs' \<Longrightarrow> cwd fs'' = cwd fs \<Longrightarrow>
     (\<forall>fe \<in> set (drop index (files f)).
        lookup fs'' (abs_path fs (fe_name fe)) = lookup fs' (abs_path fs (fe_name fe))) \<Longrightarrow>
     length buf = length p \<Longrightarrow>
     ReadAt_loop f fs'' index buf off m = (p, m + int (length p), None)"
proof (induction "length (files f) - index" arbitrary: fs index p off n buf m)
  case 0
  then have idx: "index = length (files f)" by simp
  have "p = []"
  proof (rule ccontr)
    assume "p \<noteq> []"
    then have "totalSize f \<le> off" "0 < int (length p)"
      using "0.prems"(4) idx by (simp_all add: prefix_total)
    then show False using "0.prems"(5) by simp
  qed
  then show ?case using "0.prems"(9) by (simp add: ReadAt_loop_stop)
next
  case (Suc k)
  then have idx: "index < length (files f)" by simp
  then have idxo: "index < length (offsets f)" using wf_len [OF assms] by simp
  show ?case
  proof (cases "p = []")
    case True
    then show ?thesis using Suc.prems(9) by (simp add: ReadAt_loop_stop)
  next
    case False
    note pne = this
    then have bne: "buf \<noteq> []" using Suc.prems(9) by auto
    have inv: "prefix_size f index \<le> off" using Suc.prems(4) pne by simp
    have oi: "offsets f ! index = prefix_size f index" by (rule wf_off [OF assms idx])
    have nxt: "prefix_size f (Suc index) = prefix_size f index + fe_length (files f ! index)"
      by (rule prefix_Suc [OF idx])
    have k: "k = length (files f) - (index + 1)" using Suc.hyps(2) by simp
    have sub: "set (drop (index + 1) (files f)) \<subseteq> set (drop index (files f))"
      by (simp add: set_drop_subset_set_drop)
    show ?thesis
    proof (cases "off - offsets f ! index < fe_length (files f ! index)")
      case False
      note skip = this
      have inv': "p \<noteq> [] \<Longrightarrow> prefix_size f (index + 1) \<le> off"
        using skip oi nxt by simp
      have "\<exists>fs2. write_post f fs (index + 1) p off n fs2"
      proof (rule WriteAt_loop_spec [OF assms Suc.prems(2)])
        show "index + 1 \<le> length (files f)" using idx by simp
        show "prefix_size f (index + 1) \<le> off" using inv' pne by simp
      qed
      then obtain fs2 where w2: "write_post f fs (index + 1) p off n fs2" ..
      have "fs' = fs2"
        by (rule write_post_same [OF Suc.prems(6) w2 WriteAt_loop_skip [OF pne idxo idx skip]])
      with w2 have w: "write_post f fs (index + 1) p off n fs'" by simp
      have "ReadAt_loop f fs'' (index + 1) buf off m = (p, m + int (length p), None)"
      proof (rule Suc.hyps(1) [OF k Suc.prems(1) Suc.prems(2) _ _ Suc.prems(5) w Suc.prems(7) _ Suc.prems(9)])
        show "index + 1 \<le> length (files f)" using idx by simp
        show "prefix_size f (index + 1) \<le> off" using inv' pne by simp
        show "\<forall>fe \<in> set (drop (index + 1) (files f)).
          lookup fs'' (abs_path fs (fe_name fe)) = lookup fs' (abs_path fs (fe_name fe))"
          using Suc.prems(8) sub by blast
      qed
      then show ?thesis by (simp add: ReadAt_loop_skip [OF bne idxo idx skip])
    next
      case True
      note inside = this
      let ?entry = "files f ! index"
      let ?io = "off - offsets f ! index"
      define chunk where "chunk = (if fe_length ?entry - ?io < int (length p)
                  then fe_length ?entry - ?io else int (length p))"
      have io0: "0 \<le> ?io" using inv oi by simp
      have ch: "0 < chunk" "chunk \<le> int (length p)" "chunk \<le> fe_length ?entry - ?io"
        using inside pne by (simp_all add: chunk_def)
      have lt: "length (take (nat chunk) p) = nat chunk" using ch by simp
      from backed_entry [OF Suc.prems(2) idx] obtain c where
        c: "lookup fs (abs_path fs (fe_name ?entry)) = Some (File c)" by blast
      define c' where "c' = take (nat ?io) c @ replicate (nat ?io - length c) 0 @ take (nat chunk) p
               @ drop (nat ?io + length (take (nat chunk) p)) c"
      define fs1 where "fs1 = put fs (abs_path fs (fe_name ?entry)) (File c')"
      have w1: "fe_WriteAt fs ?entry (take (nat chunk) p) ?io = (fs1, chunk, None)"
        using fe_WriteAt_file [OF c io0, of "take (nat chunk) p"] ch by (simp add: fs1_def c'_def lt)
      have b1: "backed f fs1" unfolding fs1_def by (rule backed_put [OF Suc.prems(2)])
      have cw1: "cwd fs1 = cwd fs" by (simp add: fs1_def)
      have ap1: "\<And>q. abs_path fs1 q = abs_path fs q" by (simp add: fs1_def)
      have u1: "unaliased f fs1" using Suc.prems(1) by (simp add: unaliased_cwd [OF cw1])
      have e: "WriteAt_loop f fs index p off n =
           WriteAt_loop f fs1 (index + 1) (drop (nat chunk) p) (off + chunk) (n + chunk)"
        by (rule WriteAt_loop_write [OF pne idxo idx inside chunk_def w1])
      have inv': "drop (nat chunk) p \<noteq> [] \<Longrightarrow> prefix_size f (index + 1) \<le> off + chunk"
      proof -
        assume "drop (nat chunk) p \<noteq> []"
        then have "chunk < int (length p)" by simp
        then have "chunk = fe_length ?entry - ?io" by (simp add: chunk_def split: if_splits)
        then show ?thesis using nxt oi by simp
      qed
      have "\<exists>fs2. write_post f fs1 (index + 1) (drop (nat chunk) p) (off + chunk) (n + chunk) fs2"
      proof (rule WriteAt_loop_spec [OF assms b1])
        show "index + 1 \<le> length (files f)" using idx by simp
        show "prefix_size f (index + 1) \<le> off + chunk" if "drop (nat chunk) p \<noteq> []"
          using inv' that by simp
      qed
      then obtain fs2 where
        w2: "write_post f fs1 (index + 1) (drop (nat chunk) p) (off + chunk) (n + chunk) fs2" ..
      have "fs' = fs2" by (rule write_post_same [OF Suc.prems(6) w2 e])
      with w2 have w: "write_post f fs1 (index + 1) (drop (nat chunk) p) (off + chunk) (n + chunk) fs'"
        by simp
      have notin: "abs_path fs (fe_name ?entry) \<notin>
           (\<lambda>fe. abs_path fs1 (fe_name fe)) ` set (drop (index + 1) (files f))"
        using unaliased_later [OF Suc.prems(1) idx] by (simp add: ap1)
      have "lookup fs' (abs_path fs (fe_name ?entry)) = lookup fs1 (abs_path fs (fe_name ?entry))"
        using w notin unfolding write_post_def by blast
      also have "\<dots> = Some (File c')" by (simp add: fs1_def)
      finally have l': "lookup fs' (abs_path fs (fe_name ?entry)) = Some (File c')" .
      have "?entry \<in> set (drop index (files f))"
        using idx by (metis Cons_nth_drop_Suc list.set_intros(1))
      then have "lookup fs'' (abs_path fs (fe_name ?entry)) = Some (File c')"
        using Suc.prems(8) l' by simp
      then have l'': "lookup fs'' (abs_path fs'' (fe_name ?entry)) =
          Some (File (take (nat ?io) c @ replicate (nat ?io - length c) 0 @ take (nat chunk) p
               @ drop (nat ?io + length (take (nat chunk) p)) c))"
        by (simp add: abs_path_cwd [OF Suc.prems(7)] c'_def)
      have rd: "fe_ReadAt fs'' ?entry (nat chunk) ?io = (take (nat chunk) p, None)"
        using fe_ReadAt_written [OF l'' io0] unfolding lt .
      have bch: "chunk = (if fe_length ?entry - ?io < int (length buf)
                  then fe_length ?entry - ?io else int (length buf))"
        by (simp add: chunk_def Suc.prems(9))
      have ih: "ReadAt_loop f fs'' (index + 1) (drop (nat chunk) buf) (off + chunk) (m + chunk)
           = (drop (nat chunk) p, m + chunk + int (length (drop (nat chunk) p)), None)"
      proof (rule Suc.hyps(1) [OF k u1 b1 _ _ _ w])
        show "index + 1 \<le> length (files f)" using idx by simp
        show "prefix_size f (index + 1) \<le> off + chunk" if "drop (nat chunk) p \<noteq> []"
          using inv' that by simp
        show "off + chunk + int (length (drop (nat chunk) p)) \<le> totalSize f"
          using Suc.prems(5) ch by simp
        show "cwd fs'' = cwd fs1" using Suc.prems(7) cw1 by simp
        show "\<forall>fe \<in> set (drop (index + 1) (files f)).
          lookup fs'' (abs_path fs1 (fe_name fe)) = lookup fs' (abs_path fs1 (fe_name fe))"
          using Suc.prems(8) sub by (auto simp: ap1)
        show "length (drop (nat chunk) buf) = length (drop (nat chunk) p)"
          using Suc.prems(9) by simp
      qed
      have il: "int (nat chunk) = chunk" using ch by simp
      have "ReadAt_loop f fs'' index buf off m =
          (take (nat chunk) p @ drop (nat chunk) p, m + chunk + int (length (drop (nat chunk) p)), None)"
        unfolding ReadAt_loop_read [OF bne idxo idx inside bch rd] lt il ih by simp
      moreover have "m + chunk + int (length (drop (nat chunk) p)) = m + int (length p)"
        using ch by simp
      ultimately show ?thesis by simp
    qed
  qed
qed

subsection \<open>Write then read\<close>

lemma WriteAt_inside:
  assumes "wf_store f" and "backed f fs" and "0 \<le> off"
  shows "\<exists>fs'. write_post f fs (find_fs f off) p off 0 fs'"
proof (rule WriteAt_loop_spec [OF assms(1,2)])
  show "find_fs f off \<le> length (files f)" using find_fs_spec [OF assms(1,3)] by simp
  show "prefix_size f (find_fs f off) \<le> off" using find_fs_spec [OF assms(1,3)] by simp
qed

text \<open>
  C3 (as amended). In a well-formed store whose entries are backed by pairwise
  different regular files, writing \<open>B\<close> at an offset \<open>off\<close> with \<open>0 \<le> off\<close> and
  \<open>off + |B| \<le> totalSize\<close> succeeds with count \<open>|B|\<close>, and reading \<open>|B|\<close> bytes at
  \<open>off\<close> afterwards returns exactly \<open>B\<close>, count \<open>|B|\<close> and no error.
\<close>

theorem WriteAt_ReadAt_roundtrip:
  assumes "wf_store f" and "backed f fs" and "unaliased f fs"
    and "0 \<le> off" and "off + int (length B) \<le> totalSize f" and "length buf = length B"
  shows "WriteAt f fs B off = (fst (WriteAt f fs B off), int (length B), None) \<and>
         ReadAt f (fst (WriteAt f fs B off)) buf off = (B, int (length B), None)"
proof -
  from WriteAt_inside [OF assms(1,2,4)] obtain fs' where
    w: "write_post f fs (find_fs f off) B off 0 fs'" ..
  have d: "drop (nat (totalSize f - off)) B = []" using assms(5) by simp
  have l: "WriteAt_loop f fs (find_fs f off) B off 0 = (fs', int (length B), None, [])"
    using w unfolding write_post_def d by simp
  have wr: "WriteAt f fs B off = (fs', int (length B), None)"
    by (simp add: WriteAt_def l)
  have "ReadAt_loop f fs' (find_fs f off) buf off 0 = (B, 0 + int (length B), None)"
  proof (rule ReadAt_loop_after_write [OF assms(1,3,2) _ _ assms(5) w _ _ assms(6)])
    show "find_fs f off \<le> length (files f)" using find_fs_spec [OF assms(1,4)] by simp
    show "prefix_size f (find_fs f off) \<le> off" using find_fs_spec [OF assms(1,4)] by simp
    show "cwd fs' = cwd fs" using w by (simp add: write_post_def)
    show "\<forall>fe\<in>set (drop (find_fs f off) (files f)).
       lookup fs' (abs_path fs (fe_name fe)) = lookup fs' (abs_path fs (fe_name fe))" by simp
  qed
  then show ?thesis by (simp add: wr ReadAt_def)
qed

theorem WriteAt_ReadAt_roundtrip_witness:
  "wf_store st_r \<and> backed st_r fs_staged \<and> unaliased st_r fs_staged \<and> totalSize st_r = 8 \<and>
   ReadAt st_r (fst (WriteAt st_r fs_staged [65, 66, 67, 68, 69, 70] 1)) [1, 1, 1, 1, 1, 1] 1
     = ([65, 66, 67, 68, 69, 70], 6, None)"
proof -
  have h: "wf_store st_r" "backed st_r fs_staged" "unaliased st_r fs_staged"
    by code_simp+
  have t: "totalSize st_r = 8" by code_simp
  have "ReadAt st_r (fst (WriteAt st_r fs_staged [65, 66, 67, 68, 69, 70] 1)) [1, 1, 1, 1, 1, 1] 1
     = ([65, 66, 67, 68, 69, 70], int (length [65, 66, 67, 68, 69, 70 :: byte]), None)"
    using WriteAt_ReadAt_roundtrip [OF h, of 1 "[65, 66, 67, 68, 69, 70]" "[1, 1, 1, 1, 1, 1]"] t
    by simp
  then show ?thesis using h t by simp
qed

text \<open>
  C3 as stated fails for a store two of whose entries have the same backing file: an
  info dictionary that lists the path \<^verbatim>\<open>x\<close> twice is constructed into such a store,
  and the bytes written through the second entry replace those of the first.
\<close>

theorem WriteAt_ReadAt_roundtrip_counterexample:
  "NewFileStore fs0 info_dup ''/tmp/t'' = (fs_dup, Inr (st_dup, 6)) \<and>
   wf_store st_dup \<and> backed st_dup fs_dup \<and> totalSize st_dup = 6 \<and>
   snd (WriteAt st_dup fs_dup [65, 66, 67, 68, 69, 70] 0) = (6, None) \<and>
   ReadAt st_dup (fst (WriteAt st_dup fs_dup [65, 66, 67, 68, 69, 70] 0)) [0, 0, 0, 0, 0, 0] 0
     = ([68, 69, 70, 68, 69, 70], 6, None)"
  by code_simp

subsection \<open>Writing past the end\<close>

text \<open>
  C4. In a well-formed, backed store, for a write at an offset \<open>off \<ge> 0\<close> of the
  logical range whose range extends past \<open>totalSize\<close>: when every byte beyond
  \<open>totalSize\<close> is zero the call returns no error and the count \<open>|p|\<close>, and the file
  system is the one that the successful write of the bytes up to \<open>totalSize\<close> alone
  leaves; when a byte beyond \<open>totalSize\<close> is not zero the call returns an error.
\<close>

theorem WriteAt_past_end:
  assumes "wf_store f" and "backed f fs" and "0 \<le> off" and "totalSize f < off + int (length p)"
  shows "(list_all (\<lambda>b. b = 0) (drop (nat (totalSize f - off)) p) \<longrightarrow>
            WriteAt f fs p off =
              (fst (WriteAt f fs (take (nat (totalSize f - off)) p) off), int (length p), None) \<and>
            snd (WriteAt f fs (take (nat (totalSize f - off)) p) off) =
              (int (length (take (nat (totalSize f - off)) p)), None)) \<and>
         (\<not> list_all (\<lambda>b. b = 0) (drop (nat (totalSize f - off)) p) \<longrightarrow>
            snd (snd (WriteAt f fs p off)) \<noteq> None)"
proof -
  let ?k = "nat (totalSize f - off)"
  from WriteAt_inside [OF assms(1,2,3)] obtain fs' where
    w: "write_post f fs (find_fs f off) p off 0 fs'" ..
  from WriteAt_inside [OF assms(1,2,3)] obtain fs2 where
    w2: "write_post f fs (find_fs f off) (take ?k p) off 0 fs2" ..
  have l: "WriteAt_loop f fs (find_fs f off) p off 0 =
      (fs', int (length p) - int (length (drop ?k p)), None, drop ?k p)"
    using w unfolding write_post_def by simp
  have "fst (WriteAt_loop f fs (find_fs f off) (take ?k p) off 0) = fs'"
    using w unfolding write_post_def by simp
  moreover have l2: "WriteAt_loop f fs (find_fs f off) (take ?k p) off 0 =
      (fs2, int (length (take ?k p)), None, [])"
    using w2 unfolding write_post_def by simp
  ultimately have same: "fs2 = fs'" by simp
  have in_range: "WriteAt f fs (take ?k p) off = (fs', int (length (take ?k p)), None)"
    by (simp add: WriteAt_def l2 same)
  have z: "list_all (\<lambda>b. b = 0) xs \<longleftrightarrow> length (takeWhile (\<lambda>b. b = 0) xs) = length xs"
    for xs :: "byte list"
    by (induction xs) auto
  have le: "length (takeWhile (\<lambda>b. b = 0) xs) \<le> length xs" for xs :: "byte list"
    by (rule length_takeWhile_le)
  show ?thesis
  proof (intro conjI impI)
    assume a: "list_all (\<lambda>b. b = 0) (drop ?k p)"
    then have "length (takeWhile (\<lambda>b. b = 0) (drop ?k p)) = length (drop ?k p)"
      by (simp only: z)
    then have "WriteAt f fs p off = (fs', int (length p), None)"
      by (simp add: WriteAt_def l)
    then show "WriteAt f fs p off = (fst (WriteAt f fs (take ?k p) off), int (length p), None)"
      by (simp add: in_range)
    show "snd (WriteAt f fs (take ?k p) off) = (int (length (take ?k p)), None)"
      by (simp add: in_range)
  next
    assume "\<not> list_all (\<lambda>b. b = 0) (drop ?k p)"
    then have "length (takeWhile (\<lambda>b. b = 0) (drop ?k p)) \<noteq> length (drop ?k p)"
      by (simp only: z) simp
    then have "length (takeWhile (\<lambda>b. b = 0) (drop ?k p)) < length (drop ?k p)"
      using le [of "drop ?k p"] by simp
    then show "snd (snd (WriteAt f fs p off)) \<noteq> None"
      by (simp add: WriteAt_def l)
  qed
qed

theorem WriteAt_past_end_witness:
  "wf_store st_r \<and> backed st_r fs_staged \<and> totalSize st_r = 8 \<and>
   WriteAt st_r fs_staged [1, 2, 0, 0, 0] 6 = (fst (WriteAt st_r fs_staged [1, 2] 6), 5, None) \<and>
   snd (WriteAt st_r fs_staged [1, 2] 6) = (2, None) \<and>
   snd (snd (WriteAt st_r fs_staged [1, 2, 0, 3, 0] 6)) \<noteq> None"
proof -
  have h: "wf_store st_r" "backed st_r fs_staged" "(0::int) \<le> 6"
    by code_simp+
  have t: "totalSize st_r = 8" by code_simp
  have r1: "totalSize st_r < 6 + int (length [1, 2, 0, 0, 0 :: byte])"
    and r2: "totalSize st_r < 6 + int (length [1, 2, 0, 3, 0 :: byte])"
    by (simp_all add: t)
  show ?thesis
    using WriteAt_past_end [OF h r1] WriteAt_past_end [OF h r2] h t by simp
qed

text \<open>
  An offset below 0 is outside the logical range of the store: the first entry is
  written at the negative offset, which the file rejects.
\<close>

lemma WriteAt_negative_offset:
  "wf_store st_r \<and> backed st_r fs_staged \<and> totalSize st_r = 8 \<and>
   WriteAt st_r fs_staged [0, 0, 0, 0, 0, 0, 0, 0, 0, 0, 0] (- 1) = (fs_staged, 0, Some ErrInvalid)"
  by code_simp

subsection \<open>Construction of the store\<close>

text \<open>
  C7 (as amended). For the info dictionary with name \<^verbatim>\<open>r\<close> and the files \<^verbatim>\<open>x\<close>
  (3 bytes) and \<^verbatim>\<open>d/y\<close> (5 bytes), construction under the root \<^verbatim>\<open>/tmp/t\<close> of an
  empty file system creates the staging files \<^verbatim>\<open>/tmp/t/x.part\<close> of size 3 and
  \<^verbatim>\<open>/tmp/t/d/y.part\<close> of size 5 and returns the total size 8; where
  \<^verbatim>\<open>/tmp/t/x\<close> and \<^verbatim>\<open>/tmp/t/d/y\<close> exist with these sizes they are the backing
  files. The name is no part of the backing paths of a multi-file dictionary; it
  names the backing file of a single-file one.
\<close>

theorem NewFileStore_layout:
  "NewFileStore fs0 info_r ''/tmp/t'' = (fs_staged, Inr (st_r, 8)) \<and>
   NewFileStore fs_final info_r ''/tmp/t'' = (fs_final, Inr (st_final, 8)) \<and>
   snd (NewFileStore fs0 info_single ''/tmp/t'') =
     Inr (\<lparr>offsets = [0], files = [\<lparr>fe_length = 4, fe_name = ''/tmp/t/a.part''\<rparr>]\<rparr>, 4)"
  by code_simp

text \<open>
  C7 as stated fails: after the construction nothing exists under \<^verbatim>\<open>/tmp/t/r\<close>,
  and the entries are named \<^verbatim>\<open>/tmp/t/x.part\<close> and \<^verbatim>\<open>/tmp/t/d/y.part\<close>.
\<close>

theorem NewFileStore_layout_counterexample:
  "map (lookup (fst (NewFileStore fs0 info_r ''/tmp/t'')))
       [''/tmp/t/r'', ''/tmp/t/r/x'', ''/tmp/t/r/x.part'', ''/tmp/t/r/d/y'', ''/tmp/t/r/d/y.part'']
     = [None, None, None, None, None] \<and>
   map_sum (\<lambda>e. e) (\<lambda>r. map fe_name (files (fst r))) (snd (NewFileStore fs0 info_r ''/tmp/t''))
     = Inr [''/tmp/t/x.part'', ''/tmp/t/d/y.part'']"
  by code_simp

text \<open>
  C5: a file whose path is \<^verbatim>\<open>..\<close> is cleaned to the empty path, the joined path is
  the root itself, and the staging file \<^verbatim>\<open>/tmp/t.part\<close> is created beside the root
  \<^verbatim>\<open>/tmp/t\<close>, not inside it. Under a root longer than 60 bytes the staging name is
  cut inside the root, and the file is created in \<^verbatim>\<open>/srv\<close>, above the root.
\<close>

theorem NewFileStore_escapes_root:
  "snd (NewFileStore fs0 info_up ''/tmp/t'') =
     Inr (\<lparr>offsets = [0], files = [\<lparr>fe_length = 1, fe_name = ''/tmp/t.part''\<rparr>]\<rparr>, 1) \<and>
   map (lookup (fst (NewFileStore fs0 info_up ''/tmp/t''))) [''/tmp/t.part'', ''/tmp/t'']
     = [Some (File [0]), None] \<and>
   \<not> strings_HasPrefix ''/tmp/t.part'' ''/tmp/t/'' \<and>
   map_sum (\<lambda>e. e) (\<lambda>r. map fe_name (files (fst r))) (snd (NewFileStore fs0 info_x long_root))
     = Inr [''/srv/'' @ replicate 55 (CHR ''a'') @ ''[...].part''] \<and>
   lookup (fst (NewFileStore fs0 info_x long_root)) (''/srv/'' @ replicate 55 (CHR ''a'') @ ''[...].part'')
     = Some (File [0]) \<and>
   \<not> strings_HasPrefix (''/srv/'' @ replicate 55 (CHR ''a'') @ ''[...].part'') (long_root @ ''/'')"
  by code_simp

subsection \<open>SetBad\<close>

text \<open>
  C9: with final files of 3 and 5 bytes, \<^verbatim>\<open>SetBad(4)\<close> stages the second entry
  only and keeps its bytes, as the scenario says. \<^verbatim>\<open>SetBad(3)\<close> stages the first
  entry as well, although it ends at offset 3: the search looks for the first entry
  whose end is at or after the offset, not after it.
\<close>

theorem SetBad_at_boundary:
  "snd (SetBad st_final fs_final 4) =
     Inr \<lparr>offsets = [0, 3], files = [\<lparr>fe_length = 3, fe_name = ''/tmp/t/x''\<rparr>,
       \<lparr>fe_length = 5, fe_name = ''/tmp/t/d/y.part''\<rparr>]\<rparr> \<and>
   map (lookup (fst (SetBad st_final fs_final 4))) [''/tmp/t/x'', ''/tmp/t/x.part'', ''/tmp/t/d/y.part'']
     = [Some (File [65, 66, 67]), None, Some (File [68, 69, 70, 71, 72])] \<and>
   find_fs st_final 3 = 0 \<and>
   snd (SetBad st_final fs_final 3) =
     Inr \<lparr>offsets = [0, 3], files = [\<lparr>fe_length = 3, fe_name = ''/tmp/t/x.part''\<rparr>,
       \<lparr>fe_length = 5, fe_name = ''/tmp/t/d/y.part''\<rparr>]\<rparr> \<and>
   map (lookup (fst (SetBad st_final fs_final 3))) [''/tmp/t/x.part'', ''/tmp/t/d/y.part'']
     = [Some (File [65, 66, 67]), Some (File [68, 69, 70, 71, 72])]"
  by code_simp

subsection \<open>Staging files at construction\<close>

lemma os_Stat_file:
  "lookup fs (abs_path fs p) = Some n \<Longrightarrow> os_Stat fs p = Inr n"
  by (simp add: os_Stat_def)

lemma os_Remove_file:
  "lookup fs (abs_path fs p) = Some (File c) \<Longrightarrow> os_Remove fs p = Inr (unlink fs (abs_path fs p))"
  by (simp add: os_Remove_def)


lemma fe_stage_part:
  assumes "lookup fs k = None"
  shows "lookup (fst (fe_stage fs name len)) k = None \<or>
         lookup (fst (fe_stage fs name len)) k = Some (File (replicate (nat len) 0))"
proof -
  let ?partname = "staging_name name"
  have st: "fe_stage fs name len =
    (case os_Create fs ?partname of
           Inl e \<Rightarrow> (fs, Inl e)
         | Inr fs2 \<Rightarrow>
             (case os_Truncate fs2 ?partname len of
                Inr fs3 \<Rightarrow> (fs3, Inr \<lparr>fe_length = len, fe_name = ?partname\<rparr>)
              | Inl _ \<Rightarrow> (fs2, Inr \<lparr>fe_length = len, fe_name = ?partname\<rparr>)))"
    by (simp add: fe_stage_def Let_def)
  show ?thesis
  proof (cases "os_Create fs ?partname")
    case (Inl e)
    then show ?thesis using assms by (simp add: st)
  next
    case (Inr fs2)
    then have fs2: "fs2 = put fs (abs_path fs ?partname) (File [])"
      by (auto simp: os_Create_def Let_def split: if_splits)
    show ?thesis
    proof (cases "len < 0")
      case True
      then have "os_Truncate fs2 ?partname len = Inl ErrInvalid"
        by (simp add: os_Truncate_def fs2 Let_def)
      then show ?thesis using assms True by (simp add: st Inr fs2)
    next
      case False
      then have "os_Truncate fs2 ?partname len =
          Inr (put fs2 (abs_path fs ?partname) (File (replicate (nat len) 0)))"
        by (simp add: os_Truncate_def fs2 Let_def)
      then show ?thesis using assms by (simp add: st Inr fs2)
    qed
  qed
qed

lemma fe_stage_entry:
  assumes "fe_stage fs name len = (fs', Inr fe)"
  shows "lookup fs' (abs_path fs (fe_name fe)) = Some (File (replicate (nat len) 0))"
proof -
  let ?partname = "staging_name name"
  have st: "fe_stage fs name len =
    (case os_Create fs ?partname of
           Inl e \<Rightarrow> (fs, Inl e)
         | Inr fs2 \<Rightarrow>
             (case os_Truncate fs2 ?partname len of
                Inr fs3 \<Rightarrow> (fs3, Inr \<lparr>fe_length = len, fe_name = ?partname\<rparr>)
              | Inl _ \<Rightarrow> (fs2, Inr \<lparr>fe_length = len, fe_name = ?partname\<rparr>)))"
    by (simp add: fe_stage_def Let_def)
  show ?thesis
  proof (cases "os_Create fs ?partname")
    case (Inl e)
    then show ?thesis using assms by (simp add: st)
  next
    case (Inr fs2)
    then have fs2: "fs2 = put fs (abs_path fs ?partname) (File [])"
      by (auto simp: os_Create_def Let_def split: if_splits)
    show ?thesis
    proof (cases "len < 0")
      case True
      then have "os_Truncate fs2 ?partname len = Inl ErrInvalid"
        by (simp add: os_Truncate_def fs2 Let_def)
      then show ?thesis using assms True by (auto simp: st Inr fs2)
    next
      case False
      then have "os_Truncate fs2 ?partname len =
          Inr (put fs2 (abs_path fs ?partname) (File (replicate (nat len) 0)))"
        by (simp add: os_Truncate_def fs2 Let_def)
      then show ?thesis using assms by (auto simp: st Inr fs2)
    qed
  qed
qed

lemma fe_open_after_removal:
  assumes "lookup fs (abs_path fs (name @ ''.part'')) = Some (File c)"
  shows "fe_open fs name len =
    (case os_Stat (unlink fs (abs_path fs (name @ ''.part''))) name of
           Inl ErrNotExist \<Rightarrow> fe_stage (unlink fs (abs_path fs (name @ ''.part''))) name len
         | Inl _ \<Rightarrow> (unlink fs (abs_path fs (name @ ''.part'')), Inl NilPanic)
         | Inr st \<Rightarrow>
             (if node_size st \<noteq> len then fe_stage (unlink fs (abs_path fs (name @ ''.part''))) name len
              else (unlink fs (abs_path fs (name @ ''.part'')), Inr \<lparr>fe_length = len, fe_name = name\<rparr>)))"
proof -
  have "(case os_Stat fs (name @ ''.part'') of
           Inr _ \<Rightarrow> (case os_Remove fs (name @ ''.part'') of Inr fs' \<Rightarrow> fs' | Inl _ \<Rightarrow> fs)
         | Inl _ \<Rightarrow> fs) = unlink fs (abs_path fs (name @ ''.part''))"
    by (simp add: os_Stat_file [OF assms] os_Remove_file [OF assms])
  then show ?thesis unfolding fe_open_def Let_def by (simp cong: sum.case_cong fs_error.case_cong if_cong)
qed

lemma fe_open_unlinked:
  "fe_open (unlink fs (abs_path fs (name @ ''.part''))) name len =
    (case os_Stat (unlink fs (abs_path fs (name @ ''.part''))) name of
           Inl ErrNotExist \<Rightarrow> fe_stage (unlink fs (abs_path fs (name @ ''.part''))) name len
         | Inl _ \<Rightarrow> (unlink fs (abs_path fs (name @ ''.part'')), Inl NilPanic)
         | Inr st \<Rightarrow>
             (if node_size st \<noteq> len then fe_stage (unlink fs (abs_path fs (name @ ''.part''))) name len
              else (unlink fs (abs_path fs (name @ ''.part'')), Inr \<lparr>fe_length = len, fe_name = name\<rparr>)))"
proof -
  have "os_Stat (unlink fs (abs_path fs (name @ ''.part''))) (name @ ''.part'') =
      Inl ErrNotExist \<or>
    os_Stat (unlink fs (abs_path fs (name @ ''.part''))) (name @ ''.part'') = Inl ErrNotDir"
    by (simp add: os_Stat_def Let_def)
  then have "(case os_Stat (unlink fs (abs_path fs (name @ ''.part''))) (name @ ''.part'') of
           Inr _ \<Rightarrow> (case os_Remove (unlink fs (abs_path fs (name @ ''.part''))) (name @ ''.part'') of
                      Inr fs' \<Rightarrow> fs' | Inl _ \<Rightarrow> unlink fs (abs_path fs (name @ ''.part'')))
         | Inl _ \<Rightarrow> unlink fs (abs_path fs (name @ ''.part''))) = unlink fs (abs_path fs (name @ ''.part''))"
    by auto
  then show ?thesis unfolding fe_open_def Let_def by (simp cong: sum.case_cong fs_error.case_cong if_cong)
qed

text \<open>
  The removal that \<^verbatim>\<open>open\<close> starts with. When \<^verbatim>\<open>name.part\<close> is a regular file,
  \<^verbatim>\<open>open(name, length)\<close> does what it does on the file system without that file,
  whether \<^verbatim>\<open>name\<close> exists or not; afterwards \<^verbatim>\<open>name.part\<close> is absent or holds
  \<open>length\<close> zero bytes and nothing of its old contents; and an entry that is staged is
  backed by a file of \<open>length\<close> zero bytes.
\<close>

lemma fe_open_discards_part:
  assumes "lookup fs (abs_path fs (name @ ''.part'')) = Some (File c)"
  shows "fe_open fs name len = fe_open (unlink fs (abs_path fs (name @ ''.part''))) name len \<and>
         (lookup (fst (fe_open fs name len)) (abs_path fs (name @ ''.part'')) = None \<or>
          lookup (fst (fe_open fs name len)) (abs_path fs (name @ ''.part'')) =
            Some (File (replicate (nat len) 0))) \<and>
         (\<forall>fe. snd (fe_open fs name len) = Inr fe \<and> fe_name fe \<noteq> name \<longrightarrow>
            lookup (fst (fe_open fs name len)) (abs_path fs (fe_name fe)) =
              Some (File (replicate (nat len) 0)))"
proof (intro conjI allI impI)
  let ?fs1 = "unlink fs (abs_path fs (name @ ''.part''))"
  have gone: "lookup ?fs1 (abs_path fs (name @ ''.part'')) = None" by simp
  show "fe_open fs name len = fe_open ?fs1 name len"
    unfolding fe_open_after_removal [OF assms] fe_open_unlinked ..
  show "lookup (fst (fe_open fs name len)) (abs_path fs (name @ ''.part'')) = None \<or>
          lookup (fst (fe_open fs name len)) (abs_path fs (name @ ''.part'')) =
            Some (File (replicate (nat len) 0))"
    unfolding fe_open_after_removal [OF assms]
    using fe_stage_part [OF gone, of name len] gone
    by (auto split: sum.splits fs_error.splits)
  fix fe
  assume a: "snd (fe_open fs name len) = Inr fe \<and> fe_name fe \<noteq> name"
  have ap: "\<And>q. abs_path ?fs1 q = abs_path fs q" by simp
  from a have "\<exists>fs'. fe_stage ?fs1 name len = (fs', Inr fe) \<and> fst (fe_open fs name len) = fs'"
    unfolding fe_open_after_removal [OF assms]
    by (cases "fe_stage ?fs1 name len") (auto split: sum.splits fs_error.splits if_splits)
  then obtain fs' where s: "fe_stage ?fs1 name len = (fs', Inr fe)" "fst (fe_open fs name len) = fs'"
    by blast
  show "lookup (fst (fe_open fs name len)) (abs_path fs (fe_name fe)) =
          Some (File (replicate (nat len) 0))"
    using fe_stage_entry [OF s(1)] by (simp add: s(2) ap)
qed

lemma fe_open_discards_part_example:
  "lookup fs_stale (abs_path fs_stale (''/tmp/t/x'' @ ''.part'')) = Some (File [65, 66]) \<and>
   lookup fs_stale ''/tmp/t/x'' = None \<and>
   fe_open fs_stale ''/tmp/t/x'' 3 = fe_open (unlink fs_stale ''/tmp/t/x.part'') ''/tmp/t/x'' 3 \<and>
   snd (fe_open fs_stale ''/tmp/t/x'' 3) = Inr \<lparr>fe_length = 3, fe_name = ''/tmp/t/x.part''\<rparr> \<and>
   lookup (fst (fe_open fs_stale ''/tmp/t/x'' 3)) ''/tmp/t/x.part'' = Some (File [0, 0, 0])"
proof -
  have h: "lookup fs_stale (abs_path fs_stale (''/tmp/t/x'' @ ''.part'')) = Some (File [65, 66])"
    by code_simp
  have k: "abs_path fs_stale (''/tmp/t/x'' @ ''.part'') = ''/tmp/t/x.part''" by code_simp
  have n: "lookup fs_stale ''/tmp/t/x'' = None" by code_simp
  have r: "snd (fe_open fs_stale ''/tmp/t/x'' 3) = Inr \<lparr>fe_length = 3, fe_name = ''/tmp/t/x.part''\<rparr>"
    by code_simp
  have l: "lookup (fst (fe_open fs_stale ''/tmp/t/x'' 3)) ''/tmp/t/x.part'' = Some (File [0, 0, 0])"
    by code_simp
  show ?thesis
    using fe_open_discards_part [OF h, of 3] h n r l unfolding k by simp
qed

text \<open>
  C10: the file removed is \<^verbatim>\<open>name.part\<close>, but the file staged is named after the
  path cut to 60 bytes. For the path of 67 bytes the construction on an empty file
  system stages under the cut name, and a write of two bytes leaves them there. On
  the file system that holds this staging file beside the complete final file, the
  construction returns the final file as backing file and leaves the staging file
  with its data. For the short path \<^verbatim>\<open>x\<close> in the same situation the staging file is
  removed.
\<close>

theorem NewFileStore_keeps_stale_part:
  "snd (NewFileStore fs0 info_long ''/tmp/t'') = Inr (st_long, 3) \<and>
   lookup (fst (WriteAt st_long (fst (NewFileStore fs0 info_long ''/tmp/t'')) [65, 66] 0)) cut_part
     = Some (File [65, 66, 0]) \<and>
   lookup fs_long_stale cut_part = Some (File [65, 66, 0]) \<and>
   snd (NewFileStore fs_long_stale info_long ''/tmp/t'') =
     Inr (\<lparr>offsets = [0], files = [\<lparr>fe_length = 3, fe_name = ''/tmp/t/'' @ long_name\<rparr>]\<rparr>, 3) \<and>
   lookup (fst (NewFileStore fs_long_stale info_long ''/tmp/t'')) cut_part = Some (File [65, 66, 0]) \<and>
   cut_part \<noteq> ''/tmp/t/'' @ long_name @ ''.part'' \<and>
   lookup fs_short_stale ''/tmp/t/x.part'' = Some (File [65]) \<and>
   snd (NewFileStore fs_short_stale info_x ''/tmp/t'') =
     Inr (\<lparr>offsets = [0], files = [\<lparr>fe_length = 1, fe_name = ''/tmp/t/x''\<rparr>]\<rparr>, 1) \<and>
   lookup (fst (NewFileStore fs_short_stale info_x ''/tmp/t'')) ''/tmp/t/x.part'' = None"
  by code_simp

subsection \<open>Parsing a metainfo\<close>

text \<open>
  C8 (as amended). \<^verbatim>\<open>NewMetaInfoFromContent\<close> returns a parse error exactly when the
  bencode decoder rejects the input, and makes no check of its own: whenever the
  decoder accepts and the info dictionary re-encodes, the descriptor is returned with
  the SHA-1 of the re-encoded info dictionary as info-hash, whatever fields are absent.
\<close>

theorem NewMetaInfoFromContent_errors:
  "((\<exists>e. NewMetaInfoFromContent decode encode content = Inl e) \<longleftrightarrow> (\<exists>e. decode content = Inl e)) \<and>
   (\<forall>m1 bytes. decode content = Inr m1 \<and> encode (mi_Info m1) = Inr bytes \<longrightarrow>
      NewMetaInfoFromContent decode encode content = Inr (Some (m1\<lparr>mi_InfoHash := sha1_Sum bytes\<rparr>)))"
  by (auto simp: NewMetaInfoFromContent_def split: sum.splits)

lemma ex_torrent_decodes:
  "bencode_DecodeString ex_torrent = Inr (zero_MetaInfo\<lparr>mi_Info := Some ex_torrent_info\<rparr>)"
  by code_simp

lemma ex_torrent_encodes:
  "bencode_Encode (Some ex_torrent_info) =
     Inr ''d6:lengthi4e4:name1:a12:piece lengthi0e6:pieces3:abc7:privatei0ee''"
  by code_simp

theorem NewMetaInfoFromContent_errors_witness:
  "bencode_DecodeString ex_torrent = Inr (zero_MetaInfo\<lparr>mi_Info := Some ex_torrent_info\<rparr>) \<and>
   NewMetaInfoFromContent bencode_DecodeString bencode_Encode ex_torrent =
     Inr (Some (zero_MetaInfo\<lparr>mi_Info := Some ex_torrent_info,
        mi_InfoHash := sha1_Sum ''d6:lengthi4e4:name1:a12:piece lengthi0e6:pieces3:abc7:privatei0ee''\<rparr>)) \<and>
   bencode_DecodeString ''d4:info'' = Inl SyntaxError \<and>
   NewMetaInfoFromContent bencode_DecodeString bencode_Encode ''d4:info'' = Inl (CouldNotParse SyntaxError)"
proof -
  have bad: "bencode_DecodeString ''d4:info'' = Inl SyntaxError" by code_simp
  have "\<exists>e. NewMetaInfoFromContent bencode_DecodeString bencode_Encode ''d4:info'' = Inl e"
    using NewMetaInfoFromContent_errors [of bencode_DecodeString bencode_Encode "''d4:info''"] bad
    by blast
  then have e: "NewMetaInfoFromContent bencode_DecodeString bencode_Encode ''d4:info'' = Inl (CouldNotParse SyntaxError)"
    by (simp add: NewMetaInfoFromContent_def bad)
  have "NewMetaInfoFromContent bencode_DecodeString bencode_Encode ex_torrent =
     Inr (Some (zero_MetaInfo\<lparr>mi_Info := Some ex_torrent_info,
        mi_InfoHash := sha1_Sum ''d6:lengthi4e4:name1:a12:piece lengthi0e6:pieces3:abc7:privatei0ee''\<rparr>))"
    using NewMetaInfoFromContent_errors [of bencode_DecodeString bencode_Encode ex_torrent]
      ex_torrent_decodes ex_torrent_encodes by simp
  then show ?thesis using ex_torrent_decodes bad e by simp
qed

text \<open>
  C8 as stated fails: the descriptor below is well-formed bencode with an info
  dictionary that has no piece length and a pieces string of 3 bytes, and it is
  parsed without an error.
\<close>

theorem NewMetaInfoFromContent_errors_counterexample:
  "ex_torrent = ''d4:infod6:lengthi4e4:name1:a6:pieces3:abcee'' \<and>
   NewMetaInfoFromContent bencode_DecodeString bencode_Encode ex_torrent =
     Inr (Some (zero_MetaInfo\<lparr>mi_Info := Some ex_torrent_info,
        mi_InfoHash := sha1_Sum ''d6:lengthi4e4:name1:a12:piece lengthi0e6:pieces3:abc7:privatei0ee''\<rparr>)) \<and>
   PieceLength ex_torrent_info = 0 \<and> length (Pieces ex_torrent_info) mod 20 = 3"
  by (simp add: NewMetaInfoFromContent_def ex_torrent_decodes ex_torrent_encodes)
    (simp add: ex_torrent_def ex_torrent_info_def)

end
